theory Spec2Isabelle
  imports Main "HOL-Library.Sublist" "HOL-Library.Word"
begin

section \<open>Strings and formatting\<close>

text \<open>
  Go strings are byte sequences; they are modelled as \<open>string\<close> (a list of
  characters). \<open>strings.Contains s substr\<close> reports whether \<open>substr\<close> occurs in
  \<open>s\<close> as a contiguous run of bytes; the empty string is contained in every string.
\<close>

fun Contains :: "string \<Rightarrow> string \<Rightarrow> bool" where
  "Contains [] substr = (substr = [])"
| "Contains (c # s) substr = (prefix substr (c # s) \<or> Contains s substr)"

text \<open>
  \<open>strings.Join elems sep\<close> concatenates the elements with the separator between
  neighbours.
\<close>

fun Join :: "string list \<Rightarrow> string \<Rightarrow> string" where
  "Join [] sep = []"
| "Join [e] sep = e"
| "Join (e # f # elems) sep = e @ sep @ Join (f # elems) sep"

text \<open>
  \<open>strings.ReplaceAll s old new\<close>, for an \<open>old\<close> of one byte (the source replaces
  \<open>"/"\<close>): every occurrence of that byte is replaced by \<open>new\<close>.
\<close>

fun ReplaceAll :: "string \<Rightarrow> char \<Rightarrow> string \<Rightarrow> string" where
  "ReplaceAll [] old new = []"
| "ReplaceAll (c # s) old new = (if c = old then new else [c]) @ ReplaceAll s old new"

text \<open>
  The verb \<open>%d\<close> of \<open>fmt.Sprintf\<close> prints an integer in decimal, with a leading minus
  sign for a negative one. \<open>digit_char\<close> is only applied to numbers below 10.
\<close>

definition digit_char :: "nat \<Rightarrow> char" where
  "digit_char d = ''0123456789'' ! d"

function decimal :: "nat \<Rightarrow> string" where
  "decimal n = (if n < 10 then [digit_char n] else decimal (n div 10) @ [digit_char (n mod 10)])"
  by pat_completeness auto
termination
  by (relation "measure id") auto

declare decimal.simps [simp del]

definition Itoa :: "int \<Rightarrow> string" where
  "Itoa i = (if i < 0 then CHR ''-'' # decimal (nat (- i)) else decimal (nat i))"

text \<open>
  Go's \<open>int\<close> is a 64-bit two's complement integer on the platforms the tests run
  on, and \<open>i++\<close> wraps around silently. An \<open>int\<close> is modelled as a 64-bit word:
  \<open>+\<close> wraps, \<open>sint\<close> reads the signed value, and \<open>i <= maxRetry\<close> compares the
  signed values.
\<close>

type_synonym go_int = "64 word"

section \<open>The test handle\<close>

text \<open>
  A \<open>*testing.T\<close> is a pointer that may be nil (\<open>None\<close>). Of a test handle the
  helpers use its name, its failure flag and the lines it has logged.
  \<open>t.Log\<close>/\<open>t.Logf\<close> add a line; \<open>t.Errorf\<close> adds a line and marks the test
  failed; \<open>t.Fatal\<close>/\<open>t.Fatalf\<close> do the same and then stop the test's goroutine
  (\<open>t.FailNow\<close>), so no statement after them runs. A \<open>panic\<close> takes the whole test
  binary down.
\<close>

record testing_T =
  Name :: string
  failed :: bool
  logged :: "string list"

datatype 'a ctl = Done 'a | FailedNow | Panicked string

definition Logf :: "testing_T \<Rightarrow> string \<Rightarrow> testing_T" where
  "Logf t msg = t\<lparr>logged := logged t @ [msg]\<rparr>"

definition Errorf :: "testing_T \<Rightarrow> string \<Rightarrow> testing_T" where
  "Errorf t msg = (Logf t msg)\<lparr>failed := True\<rparr>"

definition Fatalf :: "testing_T \<Rightarrow> string \<Rightarrow> 'a ctl \<times> testing_T" where
  "Fatalf t msg = (FailedNow, (Logf t msg)\<lparr>failed := True\<rparr>)"

section \<open>net.go: waiting for ports\<close>

text \<open>
  \<open>net.DialTimeout\<close> returns a connection and an error. The model keeps both: whether
  the connection is non-nil, and the error's text (\<open>None\<close> for a nil error). The
  outcome of a dial depends on the moment it is made, so the network is a function of
  the number of dials made before (a logical clock) and of the address dialled.
\<close>

datatype dial_result = DialResult (conn_ok: bool) (dial_err: "string option")

type_synonym network = "nat \<Rightarrow> string \<Rightarrow> dial_result"

text \<open>
  What a call does, in order: lines logged through \<open>t.Log\<close> or, without a test
  handle, through \<open>log.Print\<close>; dials, each with the round \<open>i\<close> it is made in, the
  address and the result; and one-second sleeps.
\<close>

datatype event =
    TLog string
  | LogPrint string
  | Dial go_int string dial_result
  | Sleep

record wso_state =
  closedPorts :: "string list"
  returnErr :: "string option"
  dials :: nat
  trace :: "event list"

definition portService :: "string \<rightharpoonup> string" where
  "portService = [''5550'' \<mapsto> ''chip-tool'']"

definition prettyPorts :: "string list \<Rightarrow> string" where
  "prettyPorts ports =
     Join (map (\<lambda>p. case portService p of
                        Some s \<Rightarrow> p @ '' ('' @ s @ '')''
                      | None \<Rightarrow> p) ports) '', ''"

definition retry_msg :: "go_int \<Rightarrow> go_int \<Rightarrow> string list \<Rightarrow> string" where
  "retry_msg i maxRetry ports =
     ''Retry '' @ Itoa (sint i) @ ''/'' @ Itoa (sint maxRetry) @ '': Waiting for ports: '' @ prettyPorts ports"

definition log_msg :: "testing_T option \<Rightarrow> string \<Rightarrow> event" where
  "log_msg t msg = (if t \<noteq> None then TLog msg else LogPrint msg)"

text \<open>
  The inner loop (lines 101--109): dial every pending port once, in order; a port
  whose connection is nil is appended to \<open>closedPortsTemp\<close>; \<open>returnErr\<close> is
  overwritten by the error of every dial, nil or not.
\<close>

fun dial_ports :: "network \<Rightarrow> go_int \<Rightarrow> string list \<Rightarrow> string list \<Rightarrow> wso_state
    \<Rightarrow> string list \<times> wso_state" where
  "dial_ports net i [] closedPortsTemp s = (closedPortsTemp, s)"
| "dial_ports net i (port # rest) closedPortsTemp s =
     (let r = net (dials s) ('':'' @ port)
      in dial_ports net i rest
           (if \<not> conn_ok r then closedPortsTemp @ [port] else closedPortsTemp)
           (s\<lparr>returnErr := dial_err r, dials := Suc (dials s),
               trace := trace s @ [Dial i ('':'' @ port) r]\<rparr>))"

text \<open>One round of the outer loop, up to the assignment \<open>closedPorts = closedPortsTemp\<close>.\<close>

definition run_round :: "network \<Rightarrow> testing_T option \<Rightarrow> go_int \<Rightarrow> go_int \<Rightarrow> wso_state \<Rightarrow> wso_state" where
  "run_round net t maxRetry i s =
     (let s1 = s\<lparr>trace := trace s @ [log_msg t (retry_msg i maxRetry (closedPorts s))]\<rparr>;
          (closedPortsTemp, s2) = dial_ports net i (closedPorts s1) [] s1
      in s2\<lparr>closedPorts := closedPortsTemp\<rparr>)"

definition sleep :: "wso_state \<Rightarrow> wso_state" where
  "sleep s = s\<lparr>trace := trace s @ [Sleep]\<rparr>"

text \<open>
  How a call ends: it returns an error value (\<open>None\<close> for nil), or it stops the test
  through \<open>t.Fatal\<close>.
\<close>

datatype outcome = Return "string option" | Fatal string

definition timeout_err :: "go_int \<Rightarrow> string option \<Rightarrow> string" where
  "timeout_err maxRetry rerr =
     (case rerr of
        Some e \<Rightarrow> ''Time out: reached max '' @ Itoa (sint maxRetry) @ '' retries. Error: '' @ e
      | None \<Rightarrow> ''Time out: reached max '' @ Itoa (sint maxRetry) @ '' retries.'')"

definition time_out :: "testing_T option \<Rightarrow> go_int \<Rightarrow> wso_state \<Rightarrow> outcome" where
  "time_out t maxRetry s =
     (let err = timeout_err maxRetry (returnErr s)
      in if t \<noteq> None then Fatal err else Return (Some err))"

text \<open>
  The outer loop \<open>for i := 1; i <= maxRetry; i++\<close>. With \<open>maxRetry\<close> the largest
  \<open>int\<close> the counter wraps and the loop need not end, so the loop is a partial
  function: \<open>None\<close> means it never returns.
\<close>

partial_function (option) retry_loop ::
    "network \<Rightarrow> testing_T option \<Rightarrow> go_int \<Rightarrow> go_int \<Rightarrow> wso_state \<Rightarrow> (outcome \<times> wso_state) option" where
  "retry_loop net t maxRetry i s =
     (if sint i \<le> sint maxRetry then
        (let s' = run_round net t maxRetry i s
         in if length (closedPorts s') = 0 then Some (Return None, s')
            else retry_loop net t maxRetry (i + 1) (sleep s'))
      else Some (time_out t maxRetry s, s))"

declare retry_loop.simps [code]

definition WaitServiceOnline ::
    "network \<Rightarrow> testing_T option \<Rightarrow> go_int \<Rightarrow> string list \<Rightarrow> (outcome \<times> wso_state) option" where
  "WaitServiceOnline net t maxRetry ports =
     retry_loop net t maxRetry 1
       \<lparr>closedPorts = ports, returnErr = None, dials = 0, trace = []\<rparr>"

text \<open>
  The loop unrolled. \<open>round_start k\<close> is the state in which round \<open>k + 1\<close> starts
  when none of the first \<open>k\<close> rounds has emptied the pending list: the initial state
  for \<open>k = 0\<close>, and the state after the sleep that follows round \<open>k\<close> otherwise.
  \<open>pending k\<close> is the pending list after \<open>k\<close> rounds.
\<close>

primrec round_start :: "network \<Rightarrow> testing_T option \<Rightarrow> go_int \<Rightarrow> string list \<Rightarrow> nat \<Rightarrow> wso_state" where
  "round_start net t maxRetry ports 0 =
     \<lparr>closedPorts = ports, returnErr = None, dials = 0, trace = []\<rparr>"
| "round_start net t maxRetry ports (Suc k) =
     sleep (run_round net t maxRetry (of_nat (Suc k)) (round_start net t maxRetry ports k))"

definition pending :: "network \<Rightarrow> testing_T option \<Rightarrow> go_int \<Rightarrow> string list \<Rightarrow> nat \<Rightarrow> string list" where
  "pending net t maxRetry ports k = closedPorts (round_start net t maxRetry ports k)"

text \<open>
  The dials of one round, written out: the ports \<open>ps\<close> are dialled in order, at the
  clock values \<open>c, c + 1, \<dots>\<close>; \<open>still_closed\<close> keeps the ports whose dial gave no
  connection.
\<close>

definition dial_events :: "network \<Rightarrow> go_int \<Rightarrow> nat \<Rightarrow> string list \<Rightarrow> event list" where
  "dial_events net i c ps =
     map (\<lambda>(n, p). Dial i ('':'' @ p) (net n ('':'' @ p))) (zip [c..<c + length ps] ps)"

definition still_closed :: "network \<Rightarrow> nat \<Rightarrow> string list \<Rightarrow> string list" where
  "still_closed net c ps =
     map snd (filter (\<lambda>(n, p). \<not> conn_ok (net n ('':'' @ p))) (zip [c..<c + length ps] ps))"

text \<open>The events of round \<open>k + 1\<close>: its log line, then one dial for each pending port.\<close>

definition round_events :: "network \<Rightarrow> testing_T option \<Rightarrow> go_int \<Rightarrow> string list \<Rightarrow> nat \<Rightarrow> event list" where
  "round_events net t maxRetry ports k =
     (let s = round_start net t maxRetry ports k
      in log_msg t (retry_msg (of_nat (Suc k)) maxRetry (closedPorts s))
           # dial_events net (of_nat (Suc k)) (dials s) (closedPorts s))"

text \<open>Networks used as concrete inputs below.\<close>

definition net_closed :: network where
  "net_closed n a = DialResult False (Some ''connection refused'')"

definition net_open :: network where
  "net_open n a = DialResult True None"

definition net_only_81 :: network where
  "net_only_81 n a =
     (if a = '':81'' then DialResult True None
      else DialResult False (Some ''connection refused''))"

definition net_only_second_dial :: network where
  "net_only_second_dial n a =
     (if n = 1 then DialResult True None else DialResult False (Some ''connection refused''))"

definition net_second_dial :: network where
  "net_second_dial n a =
     (if n = 0 then DialResult False (Some ''connection refused'') else DialResult True None)"

section \<open>net.go: the binding checks\<close>

text \<open>
  \<open>Exec\<close> runs a shell command and returns what it printed. It is defined elsewhere
  in the package, so the shell is a parameter: a function from the command line to the
  standard output, the same text whenever the same command is run. The command ends in
  \<open>|| true\<close>, so it never fails; the error output and the exit status are dropped by
  \<open>lsof\<close>.
\<close>

type_synonym shell = "string \<Rightarrow> string"

definition lsof :: "shell \<Rightarrow> string \<Rightarrow> string" where
  "lsof exec port = exec (''sudo lsof -nPi :'' @ port @ '' || true'')"

definition filterOpenPorts :: "shell \<Rightarrow> testing_T \<Rightarrow> string \<Rightarrow> string ctl \<times> testing_T" where
  "filterOpenPorts exec t port =
     (let stdout = lsof exec port
      in if stdout = [] then Fatalf t (''Port '' @ port @ '' is not open'')
         else (Done stdout, t))"

definition listen_token :: "string \<Rightarrow> string \<Rightarrow> string" where
  "listen_token addr port = addr @ '':'' @ port @ '' (LISTEN)''"

definition isListenInterface :: "shell \<Rightarrow> testing_T \<Rightarrow> string \<Rightarrow> string \<Rightarrow> bool ctl \<times> testing_T" where
  "isListenInterface exec t addr port =
     (case filterOpenPorts exec t port of
        (Done list, t1) \<Rightarrow>
          (let substr = listen_token addr port;
               t2 = Logf t1 (''Looking for '' @ [CHR 0x27] @ substr @ [CHR 0x27])
           in (Done (Contains list substr), t2))
      | (FailedNow, t1) \<Rightarrow> (FailedNow, t1)
      | (Panicked m, t1) \<Rightarrow> (Panicked m, t1))"

text \<open>The loop of \<open>requireListenAllInterfaces\<close> (lines 165--173).\<close>

fun all_interfaces_loop :: "shell \<Rightarrow> bool \<Rightarrow> string list \<Rightarrow> testing_T \<Rightarrow> unit ctl \<times> testing_T" where
  "all_interfaces_loop exec mustListen [] t = (Done (), t)"
| "all_interfaces_loop exec mustListen (port # rest) t =
     (case isListenInterface exec t ''*'' port of
        (Done isListening, t1) \<Rightarrow>
          all_interfaces_loop exec mustListen rest
            (if mustListen \<and> \<not> isListening
             then Errorf t1 (''Port '' @ port @ '' not listening to all interfaces'')
             else if \<not> mustListen \<and> isListening
             then Errorf t1 (''Port '' @ port @ '' is listening to all interfaces'')
             else t1)
      | (FailedNow, t1) \<Rightarrow> (FailedNow, t1)
      | (Panicked m, t1) \<Rightarrow> (Panicked m, t1))"

text \<open>The closing \<open>if t.Failed() { t.FailNow() }\<close> of both checks.\<close>

definition fail_now_if_failed :: "unit ctl \<times> testing_T \<Rightarrow> unit ctl \<times> testing_T" where
  "fail_now_if_failed r =
     (case r of
        (Done u, t) \<Rightarrow> if failed t then (FailedNow, t) else (Done (), t)
      | (FailedNow, t) \<Rightarrow> (FailedNow, t)
      | (Panicked m, t) \<Rightarrow> (Panicked m, t))"

definition requireListenAllInterfaces ::
    "shell \<Rightarrow> testing_T \<Rightarrow> bool \<Rightarrow> string list \<Rightarrow> unit ctl \<times> testing_T" where
  "requireListenAllInterfaces exec t mustListen ports =
     (if length ports = 0 then (Panicked ''No ports given as input'', t)
      else fail_now_if_failed (all_interfaces_loop exec mustListen ports t))"

text \<open>The loop of \<open>requireListenLoopback\<close> (lines 186--190).\<close>

fun loopback_loop :: "shell \<Rightarrow> string list \<Rightarrow> testing_T \<Rightarrow> unit ctl \<times> testing_T" where
  "loopback_loop exec [] t = (Done (), t)"
| "loopback_loop exec (port # rest) t =
     (case isListenInterface exec t ''127.0.0.1'' port of
        (Done isListening, t1) \<Rightarrow>
          loopback_loop exec rest
            (if \<not> isListening
             then Errorf t1 (''Port '' @ port @ '' is not restricted to listen on loopback interface'')
             else t1)
      | (FailedNow, t1) \<Rightarrow> (FailedNow, t1)
      | (Panicked m, t1) \<Rightarrow> (Panicked m, t1))"

definition requireListenLoopback :: "shell \<Rightarrow> testing_T \<Rightarrow> string list \<Rightarrow> unit ctl \<times> testing_T" where
  "requireListenLoopback exec t ports =
     (if length ports = 0 then (Panicked ''No ports given as input'', t)
      else fail_now_if_failed (loopback_loop exec ports t))"

text \<open>
  \<open>t.Run name f\<close> runs \<open>f\<close> as a subtest with a handle of its own: the subtest is
  named after its parent, with the spaces of \<open>name\<close> turned into underscores; it
  starts unfailed; a \<open>FailNow\<close> in it ends the subtest only; its lines join the
  parent's report, and the parent fails when the subtest has failed. A panic is not
  caught.
\<close>

definition rewrite :: "string \<Rightarrow> string" where
  "rewrite name = map (\<lambda>c. if c = CHR '' '' then CHR ''_'' else c) name"

definition Run :: "testing_T \<Rightarrow> string \<Rightarrow> (testing_T \<Rightarrow> unit ctl \<times> testing_T) \<Rightarrow> bool ctl \<times> testing_T" where
  "Run t name f =
     (case f \<lparr>Name = Name t @ ''/'' @ rewrite name, failed = False, logged = []\<rparr> of
        (Panicked m, sub) \<Rightarrow> (Panicked m, t\<lparr>logged := logged t @ logged sub\<rparr>)
      | (Done u, sub) \<Rightarrow>
          (Done (\<not> failed sub), t\<lparr>failed := failed t \<or> failed sub, logged := logged t @ logged sub\<rparr>)
      | (FailedNow, sub) \<Rightarrow>
          (Done (\<not> failed sub), t\<lparr>failed := failed t \<or> failed sub, logged := logged t @ logged sub\<rparr>))"

text \<open>The lines a call of \<open>WaitServiceOnline\<close> has logged through its test handle.\<close>

fun tlogs :: "event list \<Rightarrow> string list" where
  "tlogs [] = []"
| "tlogs (TLog msg # es) = msg # tlogs es"
| "tlogs (e # es) = tlogs es"

text \<open>
  \<open>testBindLoopback\<close>: wait for the ports with a budget of 60, then run the two
  checks as subtests, the second whatever the first has found.
\<close>

definition testBindLoopback ::
    "network \<Rightarrow> shell \<Rightarrow> testing_T \<Rightarrow> string \<Rightarrow> string list \<Rightarrow> (unit ctl \<times> testing_T) option" where
  "testBindLoopback net exec t snapName ports =
     (case WaitServiceOnline net (Some t) 60 ports of
        None \<Rightarrow> None
      | Some (out, s) \<Rightarrow>
          (let t0 = t\<lparr>logged := logged t @ tlogs (trace s)\<rparr>
           in case out of
                Fatal err \<Rightarrow> Some (Fatalf t0 err)
              | Return err \<Rightarrow>
                  (case Run t0 ''ports not listening on all interfaces''
                          (\<lambda>t. requireListenAllInterfaces exec t False ports) of
                     (Panicked m, t1) \<Rightarrow> Some (Panicked m, t1)
                   | (Done ok1, t1) \<Rightarrow>
                       (case Run t1 ''ports listening on localhost''
                               (\<lambda>t. requireListenLoopback exec t ports) of
                          (Panicked m, t2) \<Rightarrow> Some (Panicked m, t2)
                        | (Done ok2, t2) \<Rightarrow> Some (Done (), t2)
                        | (FailedNow, t2) \<Rightarrow> Some (FailedNow, t2))
                   | (FailedNow, t1) \<Rightarrow> Some (FailedNow, t1))))"

text \<open>Shells used as concrete inputs below.\<close>

definition shell_loopback :: shell where
  "shell_loopback cmd =
     (if cmd = ''sudo lsof -nPi :5550 || true''
      then ''chip-tool 812 root 7u IPv4 31337 0t0 TCP 127.0.0.1:5550 (LISTEN)''
      else [])"

definition shell_wildcard :: shell where
  "shell_wildcard cmd =
     (if cmd = ''sudo lsof -nPi :5550 || true''
      then ''chip-tool 812 root 7u IPv4 31337 0t0 TCP *:5550 (LISTEN)''
      else [])"

definition test_T :: "string \<Rightarrow> testing_T" where
  "test_T name = \<lparr>Name = name, failed = False, logged = []\<rparr>"

section \<open>log.go\<close>

text \<open>
  The operating system, as far as the helpers see it: \<open>os.MkdirAll\<close> and
  \<open>os.WriteFile\<close> each return an error (\<open>None\<close> for nil) that depends on the path;
  the files are a map from paths to contents, and a successful \<open>os.WriteFile\<close>
  makes the file's content the bytes written. What a failed write leaves behind is
  not modelled: the files are returned as they were.
\<close>

record os_env =
  MkdirAll :: "string \<Rightarrow> string option"
  WriteFile :: "string \<Rightarrow> string option"

type_synonym files = "string \<rightharpoonup> string"

text \<open>
  \<open>logFileName\<close>. When the directory cannot be made the function calls \<open>t.Fatalf\<close>,
  which on a nil handle is a nil pointer dereference, a panic.
\<close>

definition logFileName :: "os_env \<Rightarrow> testing_T option \<Rightarrow> string \<Rightarrow> string ctl \<times> testing_T option" where
  "logFileName os t label =
     (let fileName = label @ ''.log'';
          fileName = (case t of
                        Some t' \<Rightarrow> ReplaceAll (Name t') (CHR ''/'') ''-'' @ ''-'' @ fileName
                      | None \<Rightarrow> fileName);
          logDirectory = ''logs''
      in case MkdirAll os logDirectory of
           Some err \<Rightarrow>
             (case t of
                Some t' \<Rightarrow>
                  (case Fatalf t' (''Can'' @ [CHR 0x27] @ ''t create log directory'') of
                     (c, t1) \<Rightarrow> (c, Some t1))
              | None \<Rightarrow> (Panicked ''runtime error: invalid memory address or nil pointer dereference'', None))
         | None \<Rightarrow> (Done (logDirectory @ ''/'' @ fileName), t))"

definition WriteLogFile ::
    "os_env \<Rightarrow> testing_T option \<Rightarrow> string \<Rightarrow> string \<Rightarrow> files
       \<Rightarrow> string option ctl \<times> testing_T option \<times> files" where
  "WriteLogFile os t label content fs =
     (case logFileName os t label of
        (Done path, t1) \<Rightarrow>
          (case WriteFile os path of
             None \<Rightarrow> (Done None, t1, fs(path \<mapsto> content))
           | Some err \<Rightarrow> (Done (Some err), t1, fs))
      | (FailedNow, t1) \<Rightarrow> (FailedNow, t1, fs)
      | (Panicked m, t1) \<Rightarrow> (Panicked m, t1, fs))"

definition os_ok :: os_env where
  "os_ok = \<lparr>MkdirAll = (\<lambda>path. None), WriteFile = (\<lambda>path. None)\<rparr>"

text \<open>
  \<open>SnapLogs\<close> reads the journal of a snap since a timestamp. It is defined elsewhere
  in the package, so the journal is a parameter: the text that the read number \<open>n\<close>
  (counted from 0) returns for the given timestamp and snap.
\<close>

type_synonym journal = "nat \<Rightarrow> nat \<Rightarrow> string \<Rightarrow> string"

text \<open>
  The loop \<open>for i := 1; i <= maxRetry; i++\<close> of \<open>WaitForLogMessage\<close>, with the
  constant \<open>maxRetry = 10\<close>; the counter stays below 12. Every pass sleeps one second,
  logs its number and reads the journal. The state is the test handle and the number
  of reads made.
\<close>

function wait_log_loop ::
    "journal \<Rightarrow> string \<Rightarrow> string \<Rightarrow> nat \<Rightarrow> int \<Rightarrow> testing_T \<times> nat \<Rightarrow> unit ctl \<times> testing_T \<times> nat" where
  "wait_log_loop SnapLogs snap expectedLog since i (t, reads) =
     (if i \<le> 10 then
        (let t1 = Logf t (''Retry '' @ Itoa i @ ''/'' @ Itoa 10
                     @ '': Waiting for expected content in logs: '' @ expectedLog);
             logs = SnapLogs reads since snap
         in if Contains logs expectedLog
            then (Done (), Logf t1 (''Found expected content in logs: '' @ expectedLog), Suc reads)
            else wait_log_loop SnapLogs snap expectedLog since (i + 1) (t1, Suc reads))
      else (case Fatalf t (''Time out: reached max '' @ Itoa 10 @ '' retries.'') of
              (c, t1) \<Rightarrow> (c, t1, reads)))"
  by pat_completeness auto
termination
  by (relation "measure (\<lambda>(SnapLogs, snap, expectedLog, since, i, s). nat (11 - i))") auto

declare wait_log_loop.simps [simp del]

definition WaitForLogMessage ::
    "journal \<Rightarrow> testing_T \<Rightarrow> string \<Rightarrow> string \<Rightarrow> nat \<Rightarrow> unit ctl \<times> testing_T \<times> nat" where
  "WaitForLogMessage SnapLogs t snap expectedLog since =
     wait_log_loop SnapLogs snap expectedLog since 1 (t, 0)"

definition journal_third_read :: journal where
  "journal_third_read n since snap = (if 2 \<le> n then ''server started'' else ''booting'')"

definition journal_silent :: journal where
  "journal_silent n since snap = ''booting''"

section \<open>Configuration from the environment\<close>

text \<open>
  \<open>os.Getenv\<close> returns the value of a variable, and the empty string for a variable
  that is not set. \<open>strconv.ParseBool\<close> accepts exactly the twelve spellings below and
  returns a \<open>*NumError\<close> for anything else.
\<close>

type_synonym environ = "string \<rightharpoonup> string"

definition Getenv :: "environ \<Rightarrow> string \<Rightarrow> string" where
  "Getenv env key = (case env key of Some v \<Rightarrow> v | None \<Rightarrow> [])"

datatype num_error = NumError (Func: string) (Num: string) (Err: string)

definition ParseBool :: "string \<Rightarrow> num_error + bool" where
  "ParseBool str =
     (if str \<in> set [''1'', ''t'', ''T'', ''TRUE'', ''true'', ''True''] then Inr True
      else if str \<in> set [''0'', ''f'', ''F'', ''FALSE'', ''false'', ''False''] then Inr False
      else Inl (NumError ''ParseBool'' str ''invalid syntax''))"

text \<open>The settings of package \<open>utils\<close> and its \<open>init\<close>; a panic is the left summand.\<close>

record config =
  ServiceChannel :: string
  LocalServiceSnapPath :: string
  FullConfigTest :: bool
  SkipTeardownRemoval :: bool

definition defaults :: config where
  "defaults = \<lparr>ServiceChannel = ''latest/edge'', LocalServiceSnapPath = [],
               FullConfigTest = False, SkipTeardownRemoval = False\<rparr>"

definition init :: "environ \<Rightarrow> num_error + config" where
  "init env =
     (let c = defaults;
          v = Getenv env ''SERVICE_CHANNEL'';
          c = (if v \<noteq> [] then c\<lparr>ServiceChannel := v\<rparr> else c);
          v = Getenv env ''LOCAL_SERVICE_SNAP'';
          c = (if v \<noteq> [] then c\<lparr>LocalServiceSnapPath := v\<rparr> else c);
          v = Getenv env ''FULL_CONFIG_TEST''
      in case (if v \<noteq> [] then map_sum id (\<lambda>b. c\<lparr>FullConfigTest := b\<rparr>) (ParseBool v)
               else Inr c) of
           Inl err \<Rightarrow> Inl err
         | Inr c \<Rightarrow>
             (let v = Getenv env ''SKIP_TEARDOWN_REMOVAL''
              in if v \<noteq> [] then map_sum id (\<lambda>b. c\<lparr>SkipTeardownRemoval := b\<rparr>) (ParseBool v)
                 else Inr c))"

text \<open>The settings of package \<open>env\<close> and its \<open>loadEnvVars\<close>.\<close>

record env_config =
  snapChannel :: string
  snapPath :: string
  teardown :: bool

definition env_defaults :: env_config where
  "env_defaults = \<lparr>snapChannel = ''latest/edge'', snapPath = [], teardown = True\<rparr>"

definition loadEnvVars :: "environ \<Rightarrow> num_error + env_config" where
  "loadEnvVars env =
     (let c = env_defaults;
          v = Getenv env ''SNAP_CHANNEL'';
          c = (if v \<noteq> [] then c\<lparr>snapChannel := v\<rparr> else c);
          v = Getenv env ''SNAP_PATH'';
          c = (if v \<noteq> [] then c\<lparr>snapPath := v\<rparr> else c);
          v = Getenv env ''TEARDOWN''
      in if v \<noteq> [] then map_sum id (\<lambda>b. c\<lparr>teardown := b\<rparr>) (ParseBool v) else Inr c)"

definition environ_example :: environ where
  "environ_example =
     [''SERVICE_CHANNEL'' \<mapsto> ''latest/beta'', ''FULL_CONFIG_TEST'' \<mapsto> ''true'',
      ''SNAP_PATH'' \<mapsto> ''./matter.snap'', ''TEARDOWN'' \<mapsto> ''0'',
      ''LOCAL_SERVICE_SNAP'' \<mapsto> []]"

definition environ_malformed :: environ where
  "environ_malformed = [''SKIP_TEARDOWN_REMOVAL'' \<mapsto> ''yes'', ''TEARDOWN'' \<mapsto> ''no'']"

section \<open>Properties of the port wait\<close>

subsection \<open>Strings\<close>

lemma Contains_iff_sublist: "Contains s substr \<longleftrightarrow> sublist substr s"
  by (induction s) (simp_all add: sublist_Cons_right)

lemma sublist_Join:
  assumes "x \<in> set xs"
  shows "sublist x (Join xs sep)"
  using assms
proof (induction xs sep rule: Join.induct)
  case (1 sep)
  then show ?case by simp
next
  case (2 e sep)
  then show ?case by simp
next
  case (3 e f elems sep)
  show ?case
  proof (cases "x = e")
    case True
    then show ?thesis by simp
  next
    case False
    then have "sublist x (Join (f # elems) sep)"
      using 3 by simp
    moreover have "sublist (Join (f # elems) sep) (e @ sep @ Join (f # elems) sep)"
      using sublist_append_leftI [of "Join (f # elems) sep" "e @ sep"] by simp
    ultimately have "sublist x (e @ sep @ Join (f # elems) sep)"
      by (rule sublist_order.order.trans)
    then show ?thesis
      by (simp only: Join.simps)
  qed
qed

lemma Contains_prettyPorts:
  assumes "p \<in> set ports"
  shows "Contains (prettyPorts ports) p"
proof -
  let ?f = "\<lambda>p. case portService p of Some s \<Rightarrow> p @ '' ('' @ s @ '')'' | None \<Rightarrow> p"
  have "sublist p (?f p)"
    by (cases "portService p") simp_all
  moreover have "sublist (?f p) (Join (map ?f ports) '', '')"
    using assms by (intro sublist_Join) simp
  ultimately have "sublist p (Join (map ?f ports) '', '')"
    by (rule sublist_order.order.trans)
  then show ?thesis
    by (simp only: Contains_iff_sublist prettyPorts_def)
qed

lemma Contains_retry_msg:
  assumes "p \<in> set ports"
  shows "Contains (retry_msg i maxRetry ports) p"
proof -
  have "sublist p (prettyPorts ports)"
    using Contains_prettyPorts [OF assms] by (simp only: Contains_iff_sublist)
  moreover have "sublist (prettyPorts ports) (retry_msg i maxRetry ports)"
    unfolding retry_msg_def
    using sublist_append_leftI [of "prettyPorts ports"
        "''Retry '' @ Itoa (sint i) @ ''/'' @ Itoa (sint maxRetry) @ '': Waiting for ports: ''"]
    by simp
  ultimately have "sublist p (retry_msg i maxRetry ports)"
    by (rule sublist_order.order.trans)
  then show ?thesis
    by (simp only: Contains_iff_sublist)
qed

lemma timeout_err_text:
  "timeout_err maxRetry rerr =
     ''Time out: reached max '' @ Itoa (sint maxRetry) @ '' retries.''
       @ (case rerr of None \<Rightarrow> [] | Some err \<Rightarrow> '' Error: '' @ err)"
  by (simp add: timeout_err_def split: option.split)

subsection \<open>One round\<close>

lemma still_closed_Nil: "still_closed net c [] = []"
  by (simp add: still_closed_def)

lemma still_closed_Cons:
  "still_closed net c (p # ps) =
     (if conn_ok (net c ('':'' @ p)) then [] else [p]) @ still_closed net (Suc c) ps"
proof -
  have "[c..<c + length (p # ps)] = c # [Suc c..<Suc c + length ps]"
    using upt_conv_Cons [of c "c + Suc (length ps)"] by simp
  then show ?thesis
    unfolding still_closed_def by simp
qed

lemma dial_events_Nil: "dial_events net i c [] = []"
  by (simp add: dial_events_def)

lemma dial_events_Cons:
  "dial_events net i c (p # ps) =
     Dial i ('':'' @ p) (net c ('':'' @ p)) # dial_events net i (Suc c) ps"
proof -
  have "[c..<c + length (p # ps)] = c # [Suc c..<Suc c + length ps]"
    using upt_conv_Cons [of c "c + Suc (length ps)"] by simp
  then show ?thesis
    unfolding dial_events_def by simp
qed

lemma dial_ports_fst:
  "fst (dial_ports net i ps tmp s) = tmp @ still_closed net (dials s) ps"
  by (induction ps arbitrary: tmp s)
     (simp_all add: still_closed_Nil still_closed_Cons Let_def)

lemma dial_ports_dials:
  "dials (snd (dial_ports net i ps tmp s)) = dials s + length ps"
  by (induction ps arbitrary: tmp s) (simp_all add: Let_def)

lemma dial_ports_trace:
  "trace (snd (dial_ports net i ps tmp s)) = trace s @ dial_events net i (dials s) ps"
  by (induction ps arbitrary: tmp s)
     (simp_all add: dial_events_Nil dial_events_Cons Let_def)

lemma run_round_closedPorts:
  "closedPorts (run_round net t maxRetry i s) = still_closed net (dials s) (closedPorts s)"
  using dial_ports_fst [of net i "closedPorts s" "[]"]
  by (simp add: run_round_def Let_def split_beta)

lemma run_round_dials:
  "dials (run_round net t maxRetry i s) = dials s + length (closedPorts s)"
  by (simp add: run_round_def Let_def split_beta dial_ports_dials)

lemma run_round_trace:
  "trace (run_round net t maxRetry i s) =
     trace s @ log_msg t (retry_msg i maxRetry (closedPorts s))
       # dial_events net i (dials s) (closedPorts s)"
  by (simp add: run_round_def Let_def split_beta dial_ports_trace)

subsection \<open>The unrolled loop\<close>

lemma pending_0: "pending net t maxRetry ports 0 = ports"
  by (simp add: pending_def)

lemma pending_Suc:
  "pending net t maxRetry ports (Suc k) =
     still_closed net (dials (round_start net t maxRetry ports k)) (pending net t maxRetry ports k)"
  by (simp add: pending_def sleep_def run_round_closedPorts)

lemma run_round_pending:
  "closedPorts (run_round net t maxRetry (of_nat (Suc k)) (round_start net t maxRetry ports k))
     = pending net t maxRetry ports (Suc k)"
  by (simp add: pending_def sleep_def)

lemma trace_round_start:
  "trace (round_start net t maxRetry ports k) =
     concat (map (\<lambda>j. round_events net t maxRetry ports j @ [Sleep]) [0..<k])"
  by (induction k) (simp_all add: sleep_def run_round_trace round_events_def Let_def)

subsection \<open>The counter\<close>

lemma sint_of_nat_small:
  assumes "int n < 2 ^ 63"
  shows "sint (of_nat n :: go_int) = int n"
proof -
  have "sint (of_nat n :: go_int) = sint (word_of_int (int n) :: go_int)"
    by simp
  also have "\<dots> = signed_take_bit 63 (int n)"
    by (simp only: sint_sbintrunc') simp
  also have "\<dots> = int n"
    using assms by (intro signed_take_bit_int_eq_self) auto
  finally show ?thesis .
qed

lemma sint_maxRetry_bound: "sint (maxRetry :: go_int) < 2 ^ 63"
  using sint_lt [of maxRetry] by simp

subsection \<open>The loop follows its unrolling\<close>

lemma retry_loop_step:
  assumes "int (Suc k) \<le> sint maxRetry"
  shows "retry_loop net t maxRetry (of_nat (Suc k)) (round_start net t maxRetry ports k) =
    (if pending net t maxRetry ports (Suc k) = []
     then Some (Return None,
       run_round net t maxRetry (of_nat (Suc k)) (round_start net t maxRetry ports k))
     else retry_loop net t maxRetry (of_nat (Suc (Suc k))) (round_start net t maxRetry ports (Suc k)))"
proof -
  have "int (Suc k) < 2 ^ 63"
    using assms sint_maxRetry_bound [of maxRetry] by linarith
  then have i: "sint (of_nat (Suc k) :: go_int) = int (Suc k)"
    by (rule sint_of_nat_small)
  have inc: "(of_nat (Suc k) :: go_int) + 1 = of_nat (Suc (Suc k))"
    by simp
  show ?thesis
    apply (subst retry_loop.simps)
    apply (simp only: i assms if_True Let_def run_round_pending inc length_0_conv)
    apply simp
    done
qed

lemma retry_loop_stop:
  assumes "sint maxRetry < int (Suc k)" and "int (Suc k) < 2 ^ 63"
  shows "retry_loop net t maxRetry (of_nat (Suc k)) (round_start net t maxRetry ports k) =
    Some (time_out t maxRetry (round_start net t maxRetry ports k),
          round_start net t maxRetry ports k)"
proof -
  have i: "sint (of_nat (Suc k) :: go_int) = int (Suc k)"
    using assms(2) by (rule sint_of_nat_small)
  show ?thesis
    apply (subst retry_loop.simps)
    using assms(1) apply (simp only: i)
    apply simp
    done
qed

lemma retry_loop_success:
  assumes "\<forall>j. k < j \<and> j < m \<longrightarrow> pending net t maxRetry ports j \<noteq> []"
    and "pending net t maxRetry ports m = []"
    and "k < m" and "int m \<le> sint maxRetry"
  shows "retry_loop net t maxRetry (of_nat (Suc k)) (round_start net t maxRetry ports k) =
    Some (Return None,
      run_round net t maxRetry (of_nat m) (round_start net t maxRetry ports (m - 1)))"
  using assms
proof (induction "m - Suc k" arbitrary: k)
  case 0
  then have m: "m = Suc k" by simp
  show ?case
    using 0 by (simp add: m retry_loop_step del: of_nat_Suc)
next
  case (Suc d)
  then have lt: "Suc k < m" and le: "int (Suc k) \<le> sint maxRetry" by linarith+
  have ne: "pending net t maxRetry ports (Suc k) \<noteq> []"
    using Suc.prems(1) lt by simp
  have "retry_loop net t maxRetry (of_nat (Suc k)) (round_start net t maxRetry ports k) =
      retry_loop net t maxRetry (of_nat (Suc (Suc k))) (round_start net t maxRetry ports (Suc k))"
    using ne by (simp only: retry_loop_step [OF le] if_False)
  also have "\<dots> = Some (Return None,
      run_round net t maxRetry (of_nat m) (round_start net t maxRetry ports (m - 1)))"
    using Suc.hyps(2) Suc.prems lt by (intro Suc.hyps(1)) auto
  finally show ?case .
qed

lemma retry_loop_timeout:
  assumes "\<forall>j. k < j \<and> j \<le> n \<longrightarrow> pending net t maxRetry ports j \<noteq> []"
    and "k \<le> n" and "int n \<le> sint maxRetry \<or> n = 0"
    and "sint maxRetry < int (Suc n)" and "int (Suc n) < 2 ^ 63"
  shows "retry_loop net t maxRetry (of_nat (Suc k)) (round_start net t maxRetry ports k) =
    Some (time_out t maxRetry (round_start net t maxRetry ports n),
          round_start net t maxRetry ports n)"
  using assms
proof (induction "n - k" arbitrary: k)
  case 0
  then have "k = n" by simp
  then show ?case
    using 0 by (simp add: retry_loop_stop del: of_nat_Suc)
next
  case (Suc d)
  then have lt: "k < n" by linarith
  then have le: "int (Suc k) \<le> sint maxRetry"
    using Suc.prems(3) by linarith
  have ne: "pending net t maxRetry ports (Suc k) \<noteq> []"
    using Suc.prems(1) lt by simp
  have "retry_loop net t maxRetry (of_nat (Suc k)) (round_start net t maxRetry ports k) =
      retry_loop net t maxRetry (of_nat (Suc (Suc k))) (round_start net t maxRetry ports (Suc k))"
    using ne by (simp only: retry_loop_step [OF le] if_False)
  also have "\<dots> = Some (time_out t maxRetry (round_start net t maxRetry ports n),
          round_start net t maxRetry ports n)"
    using Suc.hyps(2) Suc.prems lt by (intro Suc.hyps(1)) auto
  finally show ?case .
qed

lemma WaitServiceOnline_timeout:
  assumes "\<forall>j. 0 < j \<and> j \<le> nat (sint maxRetry) \<longrightarrow> pending net t maxRetry ports j \<noteq> []"
    and "sint maxRetry < 2 ^ 63 - 1"
  shows "WaitServiceOnline net t maxRetry ports =
    Some (time_out t maxRetry (round_start net t maxRetry ports (nat (sint maxRetry))),
          round_start net t maxRetry ports (nat (sint maxRetry)))"
proof -
  have "retry_loop net t maxRetry (of_nat (Suc 0)) (round_start net t maxRetry ports 0) =
    Some (time_out t maxRetry (round_start net t maxRetry ports (nat (sint maxRetry))),
          round_start net t maxRetry ports (nat (sint maxRetry)))"
    using assms by (intro retry_loop_timeout) auto
  then show ?thesis
    by (simp add: WaitServiceOnline_def)
qed

lemma WaitServiceOnline_success:
  assumes "0 < m" and "int m \<le> sint maxRetry"
    and "\<forall>j. 0 < j \<and> j < m \<longrightarrow> pending net t maxRetry ports j \<noteq> []"
    and "pending net t maxRetry ports m = []"
  shows "WaitServiceOnline net t maxRetry ports =
    Some (Return None,
      run_round net t maxRetry (of_nat m) (round_start net t maxRetry ports (m - 1)))"
proof -
  have "retry_loop net t maxRetry (of_nat (Suc 0)) (round_start net t maxRetry ports 0) =
    Some (Return None,
      run_round net t maxRetry (of_nat m) (round_start net t maxRetry ports (m - 1)))"
    using assms by (intro retry_loop_success) auto
  then show ?thesis
    by (simp add: WaitServiceOnline_def)
qed

subsection \<open>A port that never opens\<close>

lemma still_closed_never_open:
  assumes "\<forall>n. \<not> conn_ok (net n ('':'' @ port))" and "port \<in> set ps"
  shows "port \<in> set (still_closed net c ps)"
  using assms(2)
proof (induction ps arbitrary: c)
  case Nil
  then show ?case by simp
next
  case (Cons p ps)
  then show ?case
    using assms(1) by (auto simp: still_closed_Cons)
qed

lemma pending_never_open:
  assumes "\<forall>n. \<not> conn_ok (net n ('':'' @ port))" and "port \<in> set ports"
  shows "port \<in> set (pending net t maxRetry ports k)"
proof (induction k)
  case 0
  show ?case using assms(2) by (simp only: pending_0)
next
  case (Suc k)
  show ?case
    unfolding pending_Suc using assms(1) Suc by (rule still_closed_never_open)
qed

subsection \<open>The largest budget\<close>

text \<open>
  With the largest \<open>int\<close> as budget the test \<open>i <= maxRetry\<close> never fails, and with
  a port that never opens the loop does not return.
\<close>

lemma retry_loop_largest_budget_aux:
  assumes "retry_loop net t maxRetry i s = Some y"
  shows "(\<forall>n. \<not> conn_ok (net n ('':'' @ port))) \<and> sint maxRetry = 2 ^ 63 - 1
           \<and> port \<in> set (closedPorts s) \<longrightarrow> False"
  using assms
proof (rule retry_loop.raw_induct
    [where P = "\<lambda>net t maxRetry i s y. (\<forall>n. \<not> conn_ok (net n ('':'' @ port)))
        \<and> sint maxRetry = 2 ^ 63 - 1 \<and> port \<in> set (closedPorts s) \<longrightarrow> False", rotated])
  fix loop :: "network \<Rightarrow> testing_T option \<Rightarrow> go_int \<Rightarrow> go_int \<Rightarrow> wso_state
      \<Rightarrow> (outcome \<times> wso_state) option"
  fix net t maxRetry i s y
  assume IH: "\<And>net t maxRetry i s y. loop net t maxRetry i s = Some y \<Longrightarrow>
      (\<forall>n. \<not> conn_ok (net n ('':'' @ port))) \<and> sint maxRetry = 2 ^ 63 - 1
        \<and> port \<in> set (closedPorts s) \<longrightarrow> False"
  assume body: "(if sint i \<le> sint maxRetry
      then let s' = run_round net t maxRetry i s
           in if length (closedPorts s') = 0 then Some (Return None, s')
              else loop net t maxRetry (i + 1) (sleep s')
      else Some (time_out t maxRetry s, s)) = Some y"
  show "(\<forall>n. \<not> conn_ok (net n ('':'' @ port))) \<and> sint maxRetry = 2 ^ 63 - 1
        \<and> port \<in> set (closedPorts s) \<longrightarrow> False"
  proof (intro impI, elim conjE)
    assume never: "\<forall>n. \<not> conn_ok (net n ('':'' @ port))"
      and big: "sint maxRetry = 2 ^ 63 - 1" and pend: "port \<in> set (closedPorts s)"
    have le: "sint i \<le> sint maxRetry"
      using sint_maxRetry_bound [of i] big by simp
    let ?s' = "run_round net t maxRetry i s"
    have "port \<in> set (closedPorts ?s')"
      unfolding run_round_closedPorts
      using never pend by (rule still_closed_never_open)
    then have ne: "length (closedPorts ?s') \<noteq> 0"
      and mem: "port \<in> set (closedPorts (sleep ?s'))"
      by (auto simp: sleep_def)
    have "loop net t maxRetry (i + 1) (sleep ?s') = Some y"
      using body le ne by (simp only: if_True if_False Let_def)
    from IH [OF this] never big mem show False
      by blast
  qed
qed

lemma WaitServiceOnline_largest_budget_never_returns:
  assumes "port \<in> set ports" and "\<forall>n. \<not> conn_ok (net n ('':'' @ port))"
    and "sint maxRetry = 2 ^ 63 - 1"
  shows "WaitServiceOnline net t maxRetry ports = None"
proof (cases "WaitServiceOnline net t maxRetry ports")
  case None
  then show ?thesis .
next
  case (Some y)
  then have "retry_loop net t maxRetry 1
      \<lparr>closedPorts = ports, returnErr = None, dials = 0, trace = []\<rparr> = Some y"
    by (simp only: WaitServiceOnline_def)
  from retry_loop_largest_budget_aux [OF this, of port] assms have False
    by simp
  then show ?thesis ..
qed

text \<open>
  C1, as stated, fails at the largest budget. With the largest \<open>int\<close> as budget and
  the single port 80, which never accepts a connection, the call does not return: it
  neither times out nor stops after that many rounds.
\<close>

theorem WaitServiceOnline_largest_budget_no_return:
  "sint (9223372036854775807 :: go_int) = 2 ^ 63 - 1
   \<and> WaitServiceOnline net_closed None 9223372036854775807 [''80''] = None"
proof -
  have big: "sint (9223372036854775807 :: go_int) = 2 ^ 63 - 1"
    by simp
  have "''80'' \<in> set [''80'']"
    by simp
  moreover have "\<forall>n. \<not> conn_ok (net_closed n ('':'' @ ''80''))"
    by (simp add: net_closed_def)
  ultimately have "WaitServiceOnline net_closed None 9223372036854775807 [''80''] = None"
    using big by (rule WaitServiceOnline_largest_budget_never_returns)
  with big show ?thesis ..
qed

text \<open>
  C1, amended. Let the port list hold a port whose dial never gives a connection, and
  let the budget \<open>maxRetry\<close> be below the largest \<open>int\<close>. Then \<open>WaitServiceOnline\<close>
  returns, and it ends in the time-out: through \<open>t.Fatal\<close> with a test handle, by
  returning the error without one; it never returns nil. The error reads
  \<open>Time out: reached max N retries.\<close> for the budget \<open>N\<close>, followed by \<open>Error:\<close>
  and the last dial's error when there is one. What the call has done by then is exactly
  \<open>maxRetry\<close> rounds (none for a budget below 1), each made of one log line, one dial
  for every port pending at its start, in order, and one sleep; the port is still
  pending at the end.
\<close>

theorem WaitServiceOnline_closed_port_times_out:
  assumes "port \<in> set ports"
    and "\<forall>n. \<not> conn_ok (net n ('':'' @ port))"
    and "sint maxRetry < 2 ^ 63 - 1"
  shows "\<exists>s e. WaitServiceOnline net t maxRetry ports =
           Some (if t \<noteq> None then Fatal e else Return (Some e), s)
         \<and> e = ''Time out: reached max '' @ Itoa (sint maxRetry) @ '' retries.''
                 @ (case returnErr s of None \<Rightarrow> [] | Some err \<Rightarrow> '' Error: '' @ err)
         \<and> port \<in> set (closedPorts s)
         \<and> trace s = concat (map (\<lambda>k. round_events net t maxRetry ports k @ [Sleep])
                                 [0..<nat (sint maxRetry)])"
proof -
  let ?s = "round_start net t maxRetry ports (nat (sint maxRetry))"
  have mem: "port \<in> set (pending net t maxRetry ports j)" for j
    using assms(2,1) by (rule pending_never_open)
  have ne: "\<forall>j. 0 < j \<and> j \<le> nat (sint maxRetry) \<longrightarrow> pending net t maxRetry ports j \<noteq> []"
  proof (intro allI impI)
    fix j
    show "pending net t maxRetry ports j \<noteq> []"
      using mem [of j] by auto
  qed
  have run: "WaitServiceOnline net t maxRetry ports = Some (time_out t maxRetry ?s, ?s)"
    using ne assms(3) by (rule WaitServiceOnline_timeout)
  have out: "time_out t maxRetry ?s =
      (if t \<noteq> None then Fatal (timeout_err maxRetry (returnErr ?s))
       else Return (Some (timeout_err maxRetry (returnErr ?s))))"
    by (simp only: time_out_def Let_def)
  show ?thesis
  proof (intro exI conjI)
    show "WaitServiceOnline net t maxRetry ports =
        Some (if t \<noteq> None then Fatal (timeout_err maxRetry (returnErr ?s))
              else Return (Some (timeout_err maxRetry (returnErr ?s))), ?s)"
      by (simp only: run out)
    show "timeout_err maxRetry (returnErr ?s) =
        ''Time out: reached max '' @ Itoa (sint maxRetry) @ '' retries.''
          @ (case returnErr ?s of None \<Rightarrow> [] | Some err \<Rightarrow> '' Error: '' @ err)"
      by (rule timeout_err_text)
    show "port \<in> set (closedPorts ?s)"
      using mem [of "nat (sint maxRetry)"] by (simp only: pending_def)
    show "trace ?s = concat (map (\<lambda>k. round_events net t maxRetry ports k @ [Sleep])
        [0..<nat (sint maxRetry)])"
      by (rule trace_round_start)
  qed
qed

theorem WaitServiceOnline_closed_port_times_out_witness:
  "''5550'' \<in> set [''81'', ''5550'']
   \<and> (\<forall>n. \<not> conn_ok (net_only_81 n '':5550''))
   \<and> sint (3 :: go_int) < 2 ^ 63 - 1
   \<and> (\<exists>s e. WaitServiceOnline net_only_81 None 3 [''81'', ''5550''] =
               Some (Return (Some e), s)
         \<and> e = ''Time out: reached max 3 retries.''
                 @ (case returnErr s of None \<Rightarrow> [] | Some err \<Rightarrow> '' Error: '' @ err)
         \<and> ''5550'' \<in> set (closedPorts s)
         \<and> trace s = concat (map (\<lambda>k. round_events net_only_81 None 3 [''81'', ''5550''] k
                                      @ [Sleep]) [0..<3]))
   \<and> WaitServiceOnline net_only_81 None 3 [''81'', ''5550''] =
       Some (Return (Some ''Time out: reached max 3 retries. Error: connection refused''),
         \<lparr>closedPorts = [''5550''], returnErr = Some ''connection refused'', dials = 4,
          trace = [LogPrint ''Retry 1/3: Waiting for ports: 81, 5550 (chip-tool)'',
                   Dial 1 '':81'' (DialResult True None),
                   Dial 1 '':5550'' (DialResult False (Some ''connection refused'')),
                   Sleep,
                   LogPrint ''Retry 2/3: Waiting for ports: 5550 (chip-tool)'',
                   Dial 2 '':5550'' (DialResult False (Some ''connection refused'')),
                   Sleep,
                   LogPrint ''Retry 3/3: Waiting for ports: 5550 (chip-tool)'',
                   Dial 3 '':5550'' (DialResult False (Some ''connection refused'')),
                   Sleep]\<rparr>)"
proof -
  have three: "Itoa 3 = ''3''"
    by (simp add: Itoa_def decimal.simps digit_char_def)
  have general: "\<exists>s e. WaitServiceOnline net_only_81 None 3 [''81'', ''5550''] =
               Some (Return (Some e), s)
         \<and> e = ''Time out: reached max 3 retries.''
                 @ (case returnErr s of None \<Rightarrow> [] | Some err \<Rightarrow> '' Error: '' @ err)
         \<and> ''5550'' \<in> set (closedPorts s)
         \<and> trace s = concat (map (\<lambda>k. round_events net_only_81 None 3 [''81'', ''5550''] k
                                      @ [Sleep]) [0..<3])"
    using WaitServiceOnline_closed_port_times_out
            [of "''5550''" "[''81'', ''5550'']" net_only_81 3 None]
    by (simp add: net_only_81_def three)
  have run: "WaitServiceOnline net_only_81 None 3 [''81'', ''5550''] =
       Some (Return (Some ''Time out: reached max 3 retries. Error: connection refused''),
         \<lparr>closedPorts = [''5550''], returnErr = Some ''connection refused'', dials = 4,
          trace = [LogPrint ''Retry 1/3: Waiting for ports: 81, 5550 (chip-tool)'',
                   Dial 1 '':81'' (DialResult True None),
                   Dial 1 '':5550'' (DialResult False (Some ''connection refused'')),
                   Sleep,
                   LogPrint ''Retry 2/3: Waiting for ports: 5550 (chip-tool)'',
                   Dial 2 '':5550'' (DialResult False (Some ''connection refused'')),
                   Sleep,
                   LogPrint ''Retry 3/3: Waiting for ports: 5550 (chip-tool)'',
                   Dial 3 '':5550'' (DialResult False (Some ''connection refused'')),
                   Sleep]\<rparr>)"
    by code_simp
  have "''5550'' \<in> set [''81'', ''5550'']" and "\<forall>n. \<not> conn_ok (net_only_81 n '':5550'')"
    and "sint (3 :: go_int) < 2 ^ 63 - 1"
    by (simp_all add: net_only_81_def)
  with general run show ?thesis
    by (intro conjI)
qed

text \<open>
  C2. Let round \<open>m\<close> (within the budget) be the first round that leaves the pending
  list empty; the port list is then not empty, since the list pending after no round
  is the port list itself. Then \<open>WaitServiceOnline\<close> returns nil (not through
  \<open>t.Fatal\<close>) with nothing pending, and what it has done is the first \<open>m - 1\<close> rounds,
  each followed by its sleep, and round \<open>m\<close>; nothing follows round \<open>m\<close>. Moreover
  the list pending after a round is the list pending before it without the ports whose
  dial in that round gave a connection.
\<close>

theorem WaitServiceOnline_first_empty_round:
  assumes "0 < m" and "int m \<le> sint maxRetry"
    and "\<forall>j<m. pending net t maxRetry ports j \<noteq> []"
    and "pending net t maxRetry ports m = []"
  shows "ports \<noteq> []
         \<and> (\<exists>s. WaitServiceOnline net t maxRetry ports = Some (Return None, s)
              \<and> closedPorts s = []
              \<and> trace s =
                  concat (map (\<lambda>k. round_events net t maxRetry ports k @ [Sleep]) [0..<m - 1])
                    @ round_events net t maxRetry ports (m - 1))
         \<and> (\<forall>k. pending net t maxRetry ports (Suc k) =
                  still_closed net (dials (round_start net t maxRetry ports k))
                    (pending net t maxRetry ports k))"
proof -
  let ?s = "run_round net t maxRetry (of_nat m) (round_start net t maxRetry ports (m - 1))"
  obtain k where m: "m = Suc k"
    using assms(1) by (cases m) auto
  have "pending net t maxRetry ports 0 \<noteq> []"
    using assms(1,3) by blast
  then have "ports \<noteq> []"
    by (simp add: pending_0)
  moreover have "WaitServiceOnline net t maxRetry ports = Some (Return None, ?s)"
    using assms by (intro WaitServiceOnline_success) auto
  moreover have "closedPorts ?s = []"
    using assms(4) unfolding m by (simp only: run_round_pending diff_Suc_1)
  moreover have "trace ?s =
      concat (map (\<lambda>k. round_events net t maxRetry ports k @ [Sleep]) [0..<m - 1])
        @ round_events net t maxRetry ports (m - 1)"
    unfolding m by (simp add: run_round_trace trace_round_start round_events_def Let_def)
  ultimately show ?thesis
    by (auto simp: pending_Suc)
qed

theorem WaitServiceOnline_first_empty_round_witness:
  "pending net_second_dial None 60 [''5550''] 0 = [''5550'']
   \<and> pending net_second_dial None 60 [''5550''] 1 = [''5550'']
   \<and> pending net_second_dial None 60 [''5550''] 2 = []
   \<and> (\<exists>s. WaitServiceOnline net_second_dial None 60 [''5550''] = Some (Return None, s)
        \<and> closedPorts s = []
        \<and> trace s = round_events net_second_dial None 60 [''5550''] 0 @ [Sleep]
                      @ round_events net_second_dial None 60 [''5550''] 1)"
proof -
  have p0: "pending net_second_dial None 60 [''5550''] 0 = [''5550'']"
    by (simp add: pending_0)
  have p1: "pending net_second_dial None 60 [''5550''] (Suc 0) = [''5550'']"
    by (simp add: pending_Suc p0 still_closed_Cons still_closed_Nil net_second_dial_def)
  have d1: "dials (round_start net_second_dial None 60 [''5550''] (Suc 0)) = 1"
    using p0 by (simp add: sleep_def run_round_dials pending_def)
  have p2: "pending net_second_dial None 60 [''5550''] (Suc (Suc 0)) = []"
    by (simp only: pending_Suc [of _ _ _ _ "Suc 0"] p1 d1)
       (simp add: still_closed_Cons still_closed_Nil net_second_dial_def)
  have ne: "\<forall>j<2. pending net_second_dial None 60 [''5550''] j \<noteq> []"
    using p0 p1 by (auto simp: less_2_cases_iff)
  have "(0::nat) < 2" and "int 2 \<le> sint (60 :: go_int)"
    by simp_all
  from WaitServiceOnline_first_empty_round [OF this ne] p2
  have "\<exists>s. WaitServiceOnline net_second_dial None 60 [''5550''] = Some (Return None, s)
        \<and> closedPorts s = []
        \<and> trace s = round_events net_second_dial None 60 [''5550''] 0 @ [Sleep]
                      @ round_events net_second_dial None 60 [''5550''] 1"
    by (simp add: numeral_2_eq_2)
  with p0 p1 p2 show ?thesis
    by (simp add: numeral_2_eq_2)
qed

subsection \<open>What a time-out reports\<close>

lemma subseq_still_closed: "subseq (still_closed net c ps) ps"
proof (induction ps arbitrary: c)
  case Nil
  show ?case by (simp add: still_closed_Nil)
next
  case (Cons p ps)
  show ?case
  proof (cases "conn_ok (net c ('':'' @ p))")
    case True
    then show ?thesis
      using Cons [of "Suc c"] by (simp add: still_closed_Cons list_emb_Cons)
  next
    case False
    then show ?thesis
      using Cons [of "Suc c"] by (simp add: still_closed_Cons)
  qed
qed

lemma still_closed_Nil_iff: "still_closed net c ps \<noteq> [] \<Longrightarrow> ps \<noteq> []"
  by (auto simp: still_closed_Nil)

lemma dial_ports_returnErr:
  "ps \<noteq> [] \<Longrightarrow>
   returnErr (snd (dial_ports net i ps tmp s)) =
     dial_err (net (dials s + length ps - 1) ('':'' @ last ps))"
proof (induction ps arbitrary: tmp s)
  case Nil
  then show ?case by simp
next
  case (Cons p ps)
  show ?case
  proof (cases "ps = []")
    case True
    then show ?thesis by (simp add: Let_def)
  next
    case False
    then show ?thesis
      using Cons.IH [OF False] by (simp add: Let_def)
  qed
qed

lemma run_round_returnErr:
  "closedPorts s \<noteq> [] \<Longrightarrow>
   returnErr (run_round net t maxRetry i s) =
     dial_err (net (dials s + length (closedPorts s) - 1) ('':'' @ last (closedPorts s)))"
  by (simp add: run_round_def Let_def split_beta dial_ports_returnErr)

lemma of_nat_nat_sint:
  assumes "0 \<le> sint (maxRetry :: go_int)"
  shows "of_nat (nat (sint maxRetry)) = maxRetry"
proof -
  have "(of_nat (nat (sint maxRetry)) :: go_int) = word_of_int (int (nat (sint maxRetry)))"
    by simp
  also have "\<dots> = word_of_int (sint maxRetry)"
    using assms by simp
  also have "\<dots> = maxRetry"
    by simp
  finally show ?thesis .
qed

text \<open>
  C3, as stated, fails. With a budget of one round and the ports 80 and 81, of which
  only 81 accepts connections, port 80 is still closed when the budget is used up. The
  error returned is \<open>Time out: reached max 1 retries.\<close>: the last dial made (to port
  81) gave no error, and the text names no port at all. The only line that names ports
  is the one logged before the dials of the round, and it lists port 81 as well.
\<close>

theorem WaitServiceOnline_timeout_names_no_port:
  "WaitServiceOnline net_only_81 None 1 [''80'', ''81''] =
     Some (Return (Some ''Time out: reached max 1 retries.''),
       \<lparr>closedPorts = [''80''], returnErr = None, dials = 2,
        trace = [LogPrint ''Retry 1/1: Waiting for ports: 80, 81'',
                 Dial 1 '':80'' (DialResult False (Some ''connection refused'')),
                 Dial 1 '':81'' (DialResult True None),
                 Sleep]\<rparr>)
   \<and> \<not> Contains ''Time out: reached max 1 retries.'' ''80''"
  by code_simp

text \<open>
  C3, amended. Let the budget be at least 1 and below the largest \<open>int\<close>, and let every
  round of the budget leave a port pending. Then the call ends in the time-out, and
  the error it reports is \<open>Time out: reached max N retries.\<close> for the budget \<open>N\<close>,
  followed by \<open>Error:\<close> and the error of the last dial made when that dial returned
  one; that dial is the one to the last port pending at the start of the last round.
  The list of the ports still closed is reported through the log line of the last round,
  \<open>Retry N/N: Waiting for ports: ...\<close>: the line lists the ports pending at the start of
  that round, the ports still closed are a subsequence of them, and every port still
  closed is named in the line.
\<close>

theorem WaitServiceOnline_timeout_report:
  assumes "0 < sint maxRetry" and "sint maxRetry < 2 ^ 63 - 1"
    and "\<forall>j. 0 < j \<and> j \<le> nat (sint maxRetry) \<longrightarrow> pending net t maxRetry ports j \<noteq> []"
  shows "\<exists>s e. WaitServiceOnline net t maxRetry ports =
           Some (if t \<noteq> None then Fatal e else Return (Some e), s)
         \<and> e = ''Time out: reached max '' @ Itoa (sint maxRetry) @ '' retries.''
                 @ (case returnErr s of None \<Rightarrow> [] | Some err \<Rightarrow> '' Error: '' @ err)
         \<and> returnErr s =
             dial_err (net (dials s - 1)
               ('':'' @ last (pending net t maxRetry ports (nat (sint maxRetry) - 1))))
         \<and> closedPorts s \<noteq> []
         \<and> subseq (closedPorts s) (pending net t maxRetry ports (nat (sint maxRetry) - 1))
         \<and> log_msg t (retry_msg maxRetry maxRetry
               (pending net t maxRetry ports (nat (sint maxRetry) - 1))) \<in> set (trace s)
         \<and> (\<forall>p\<in>set (closedPorts s).
               Contains (retry_msg maxRetry maxRetry
                 (pending net t maxRetry ports (nat (sint maxRetry) - 1))) p)"
proof -
  obtain k where n: "nat (sint maxRetry) = Suc k"
    using assms(1) by (cases "nat (sint maxRetry)") auto
  let ?s = "round_start net t maxRetry ports (Suc k)"
  let ?b = "round_start net t maxRetry ports k"
  have i: "(of_nat (Suc k) :: go_int) = maxRetry"
    using of_nat_nat_sint [of maxRetry] assms(1) unfolding n by simp
  have last_ne: "pending net t maxRetry ports (Suc k) \<noteq> []"
    using assms(3) n by simp
  then have prev_ne: "closedPorts ?b \<noteq> []"
    unfolding pending_Suc by (auto simp: pending_def still_closed_Nil)
  have run: "WaitServiceOnline net t maxRetry ports = Some (time_out t maxRetry ?s, ?s)"
    using WaitServiceOnline_timeout [OF assms(3,2)] by (simp only: n)
  have err: "returnErr ?s =
      dial_err (net (dials ?s - 1) ('':'' @ last (pending net t maxRetry ports k)))"
    using prev_ne
    by (simp add: sleep_def run_round_returnErr run_round_dials pending_def del: of_nat_Suc)
  have closed: "closedPorts ?s = pending net t maxRetry ports (Suc k)"
    by (simp only: pending_def)
  have sub: "subseq (closedPorts ?s) (pending net t maxRetry ports k)"
    unfolding closed pending_Suc by (rule subseq_still_closed)
  have "log_msg t (retry_msg (of_nat (Suc k)) maxRetry (pending net t maxRetry ports k))
      \<in> set (trace ?s)"
    by (simp add: sleep_def run_round_trace pending_def del: of_nat_Suc)
  then have logged: "log_msg t (retry_msg maxRetry maxRetry (pending net t maxRetry ports k))
      \<in> set (trace ?s)"
    by (simp only: i)
  have msg: "timeout_err maxRetry (returnErr ?s) =
      ''Time out: reached max '' @ Itoa (sint maxRetry) @ '' retries.''
        @ (case returnErr ?s of None \<Rightarrow> [] | Some err \<Rightarrow> '' Error: '' @ err)"
    by (simp add: timeout_err_def split: option.split)
  have out: "time_out t maxRetry ?s =
      (if t \<noteq> None then Fatal (timeout_err maxRetry (returnErr ?s))
       else Return (Some (timeout_err maxRetry (returnErr ?s))))"
    by (simp only: time_out_def Let_def)
  have k: "nat (sint maxRetry) - 1 = k"
    by (simp only: n diff_Suc_1)
  show ?thesis
    unfolding k
  proof (intro exI conjI)
    show "WaitServiceOnline net t maxRetry ports =
        Some (if t \<noteq> None then Fatal (timeout_err maxRetry (returnErr ?s))
              else Return (Some (timeout_err maxRetry (returnErr ?s))), ?s)"
      by (simp only: run out)
    show "timeout_err maxRetry (returnErr ?s) =
      ''Time out: reached max '' @ Itoa (sint maxRetry) @ '' retries.''
        @ (case returnErr ?s of None \<Rightarrow> [] | Some err \<Rightarrow> '' Error: '' @ err)"
      by (rule msg)
    show "returnErr ?s =
      dial_err (net (dials ?s - 1) ('':'' @ last (pending net t maxRetry ports k)))"
      by (rule err)
    show "closedPorts ?s \<noteq> []"
      unfolding closed by (rule last_ne)
    show "subseq (closedPorts ?s) (pending net t maxRetry ports k)"
      by (rule sub)
    show "log_msg t (retry_msg maxRetry maxRetry (pending net t maxRetry ports k))
      \<in> set (trace ?s)"
      by (rule logged)
    show "\<forall>p\<in>set (closedPorts ?s).
        Contains (retry_msg maxRetry maxRetry (pending net t maxRetry ports k)) p"
    proof
      fix p
      assume "p \<in> set (closedPorts ?s)"
      with sub obtain q where "q \<in> set (pending net t maxRetry ports k)" and "p = q"
        by (rule list_emb_set)
      then have "p \<in> set (pending net t maxRetry ports k)"
        by simp
      then show "Contains (retry_msg maxRetry maxRetry (pending net t maxRetry ports k)) p"
        by (rule Contains_retry_msg)
    qed
  qed
qed

theorem WaitServiceOnline_timeout_report_witness:
  "\<exists>s e. WaitServiceOnline net_closed (Some (test_T ''TestNet'')) 2 [''80'', ''5550''] =
           Some (Fatal e, s)
     \<and> e = ''Time out: reached max 2 retries. Error: connection refused''
     \<and> returnErr s = Some ''connection refused''
     \<and> closedPorts s \<noteq> []
     \<and> subseq (closedPorts s) [''80'', ''5550'']
     \<and> TLog ''Retry 2/2: Waiting for ports: 80, 5550 (chip-tool)'' \<in> set (trace s)
     \<and> (\<forall>p\<in>set (closedPorts s).
           Contains ''Retry 2/2: Waiting for ports: 80, 5550 (chip-tool)'' p)"
proof -
  let ?t = "Some (test_T ''TestNet'')"
  have all: "pending net_closed ?t 2 [''80'', ''5550''] j = [''80'', ''5550'']" for j
    by (induction j)
       (simp_all add: pending_0 pending_Suc still_closed_Cons still_closed_Nil net_closed_def)
  have "(0::int) < sint (2 :: go_int)" and "sint (2 :: go_int) < 2 ^ 63 - 1"
    by simp_all
  moreover have "\<forall>j. 0 < j \<and> j \<le> nat (sint (2 :: go_int))
      \<longrightarrow> pending net_closed ?t 2 [''80'', ''5550''] j \<noteq> []"
    by (simp add: all)
  ultimately obtain s e where
      run: "WaitServiceOnline net_closed ?t 2 [''80'', ''5550''] = Some (Fatal e, s)"
      and e: "e = ''Time out: reached max '' @ Itoa (sint (2 :: go_int)) @ '' retries.''
                 @ (case returnErr s of None \<Rightarrow> [] | Some err \<Rightarrow> '' Error: '' @ err)"
      and err: "returnErr s = dial_err (net_closed (dials s - 1) ('':'' @ last [''80'', ''5550'']))"
      and rest: "closedPorts s \<noteq> []" "subseq (closedPorts s) [''80'', ''5550'']"
        "log_msg ?t (retry_msg 2 2 [''80'', ''5550'']) \<in> set (trace s)"
        "\<forall>p\<in>set (closedPorts s). Contains (retry_msg 2 2 [''80'', ''5550'']) p"
    using WaitServiceOnline_timeout_report [of 2 net_closed ?t "[''80'', ''5550'']"]
    by (auto simp: all)
  have err': "returnErr s = Some ''connection refused''"
    using err by (simp add: net_closed_def)
  have "e = ''Time out: reached max 2 retries. Error: connection refused''"
    unfolding e err' by (simp add: Itoa_def decimal.simps digit_char_def)
  moreover have line: "retry_msg 2 2 [''80'', ''5550'']
      = ''Retry 2/2: Waiting for ports: 80, 5550 (chip-tool)''"
    by (simp add: retry_msg_def prettyPorts_def portService_def
        Itoa_def decimal.simps digit_char_def)
  moreover have "TLog ''Retry 2/2: Waiting for ports: 80, 5550 (chip-tool)'' \<in> set (trace s)"
    using rest(3) unfolding line by (simp add: log_msg_def)
  moreover have "\<forall>p\<in>set (closedPorts s).
      Contains ''Retry 2/2: Waiting for ports: 80, 5550 (chip-tool)'' p"
    using rest(4) unfolding line .
  ultimately show ?thesis
    using run err' rest(1,2) by blast
qed

subsection \<open>An empty port list\<close>

lemma requireListenAllInterfaces_no_ports:
  "requireListenAllInterfaces exec t mustListen [] = (Panicked ''No ports given as input'', t)"
  by (simp add: requireListenAllInterfaces_def)

lemma requireListenLoopback_no_ports:
  "requireListenLoopback exec t [] = (Panicked ''No ports given as input'', t)"
  by (simp add: requireListenLoopback_def)

text \<open>
  C4. Both binding checks panic on an empty port list before they list any socket (the
  two lemmas above). \<open>WaitServiceOnline\<close> has no such guard: called with no port and
  the budget of 60 that its callers pass, it logs the line of round 1, dials nothing,
  finds nothing pending and returns nil.
\<close>

theorem WaitServiceOnline_no_ports_returns_nil:
  "WaitServiceOnline net t 60 [] =
     Some (Return None,
       \<lparr>closedPorts = [], returnErr = None, dials = 0,
        trace = [log_msg t ''Retry 1/60: Waiting for ports: '']\<rparr>)"
proof -
  have msg: "retry_msg 1 60 [] = ''Retry 1/60: Waiting for ports: ''"
    by (simp add: retry_msg_def prettyPorts_def Itoa_def decimal.simps digit_char_def)
  show ?thesis
    unfolding WaitServiceOnline_def
    by (subst retry_loop.simps) (simp add: run_round_def msg)
qed

subsection \<open>The pending list\<close>

lemma set_still_closed: "set (still_closed net c ps) \<subseteq> set ps"
  by (induction ps arbitrary: c) (auto simp: still_closed_Nil still_closed_Cons)

lemma distinct_still_closed: "distinct ps \<Longrightarrow> distinct (still_closed net c ps)"
proof (induction ps arbitrary: c)
  case Nil
  show ?case by (simp add: still_closed_Nil)
next
  case (Cons p ps)
  then show ?case
    using set_still_closed [of net "Suc c" ps] by (auto simp: still_closed_Cons)
qed

lemma subseq_pending_Suc:
  "subseq (pending net t maxRetry ports (Suc k)) (pending net t maxRetry ports k)"
  unfolding pending_Suc by (rule subseq_still_closed)

lemma subseq_pending: "subseq (pending net t maxRetry ports k) ports"
proof (induction k)
  case 0
  show ?case by (simp add: pending_0)
next
  case (Suc k)
  show ?case
    using subseq_pending_Suc Suc by (rule subseq_order.trans)
qed

lemma subseq_pending_le:
  "j \<le> k \<Longrightarrow> subseq (pending net t maxRetry ports k) (pending net t maxRetry ports j)"
proof (induction k)
  case 0
  then show ?case by simp
next
  case (Suc k)
  show ?case
  proof (cases "j = Suc k")
    case True
    then show ?thesis by simp
  next
    case False
    then have "subseq (pending net t maxRetry ports k) (pending net t maxRetry ports j)"
      using Suc by simp
    with subseq_pending_Suc show ?thesis
      by (rule subseq_order.trans)
  qed
qed

lemma set_pending_le:
  assumes "j \<le> k"
  shows "set (pending net t maxRetry ports k) \<subseteq> set (pending net t maxRetry ports j)"
proof
  fix p
  assume "p \<in> set (pending net t maxRetry ports k)"
  with subseq_pending_le [OF assms] obtain q
    where "q \<in> set (pending net t maxRetry ports j)" and "p = q"
    by (rule list_emb_set)
  then show "p \<in> set (pending net t maxRetry ports j)"
    by simp
qed

lemma distinct_pending:
  "distinct ports \<Longrightarrow> distinct (pending net t maxRetry ports k)"
  by (induction k) (simp_all add: pending_0 pending_Suc distinct_still_closed)

text \<open>The dials of a round: whom they reach, and what a connection does to the list.\<close>

lemma dial_events_port:
  "Dial i a r \<in> set (dial_events net j c ps) \<Longrightarrow> i = j \<and> (\<exists>p\<in>set ps. a = '':'' @ p)"
  by (induction ps arbitrary: c) (auto simp: dial_events_Nil dial_events_Cons)

lemma dial_events_connected:
  assumes "distinct ps" and "Dial i ('':'' @ p) r \<in> set (dial_events net j c ps)"
    and "conn_ok r"
  shows "p \<notin> set (still_closed net c ps)"
  using assms(1,2)
proof (induction ps arbitrary: c)
  case Nil
  then show ?case by (simp add: dial_events_Nil)
next
  case (Cons q ps)
  show ?case
  proof (cases "p = q")
    case True
    then have "p \<notin> set ps"
      using Cons.prems(1) by simp
    then have tail: "p \<notin> set (still_closed net (Suc c) ps)"
      using set_still_closed [of net "Suc c" ps] by blast
    have "\<not> (\<exists>p'\<in>set ps. '':'' @ p = '':'' @ p')"
      using \<open>p \<notin> set ps\<close> by simp
    then have "Dial i ('':'' @ p) r \<notin> set (dial_events net j (Suc c) ps)"
      using dial_events_port [of i "'':'' @ p" r net j "Suc c" ps] by blast
    then have "r = net c ('':'' @ q)"
      using Cons.prems(2) True by (simp add: dial_events_Cons)
    then show ?thesis
      using assms(3) tail True by (simp add: still_closed_Cons)
  next
    case False
    then have "Dial i ('':'' @ p) r \<in> set (dial_events net j (Suc c) ps)"
      using Cons.prems(2) by (simp add: dial_events_Cons)
    then have "p \<notin> set (still_closed net (Suc c) ps)"
      using Cons.IH [of "Suc c"] Cons.prems(1) by simp
    then show ?thesis
      using False by (simp add: still_closed_Cons)
  qed
qed

lemma dial_in_round_events:
  "Dial i a r \<in> set (round_events net t maxRetry ports k) \<longleftrightarrow>
     Dial i a r \<in> set (dial_events net (of_nat (Suc k))
       (dials (round_start net t maxRetry ports k)) (pending net t maxRetry ports k))"
  by (simp add: round_events_def Let_def log_msg_def pending_def del: of_nat_Suc)

lemma dial_in_trace_round_start:
  "Dial i a r \<in> set (trace (round_start net t maxRetry ports n)) \<longleftrightarrow>
     (\<exists>k<n. Dial i a r \<in> set (round_events net t maxRetry ports k))"
  by (simp add: trace_round_start) (auto simp: Bex_def)

lemma dial_in_trace_run_round:
  "Dial i a r \<in> set (trace (run_round net t maxRetry (of_nat (Suc n))
        (round_start net t maxRetry ports n))) \<longleftrightarrow>
     (\<exists>k<Suc n. Dial i a r \<in> set (round_events net t maxRetry ports k))"
proof -
  have "trace (run_round net t maxRetry (of_nat (Suc n)) (round_start net t maxRetry ports n))
      = trace (round_start net t maxRetry ports n) @ round_events net t maxRetry ports n"
    by (simp add: run_round_trace round_events_def Let_def del: of_nat_Suc)
  then show ?thesis
    by (auto simp: dial_in_trace_round_start less_Suc_eq)
qed

text \<open>
  With distinct ports, a connection in round \<open>j + 1\<close> keeps the port out of every
  later round, as long as the counter has not wrapped.
\<close>

lemma no_dial_after_connection:
  assumes "distinct ports"
    and first: "Dial i a r \<in> set (round_events net t maxRetry ports j)" "conn_ok r"
    and later: "Dial i' a r' \<in> set (round_events net t maxRetry ports k)"
    and bound: "int (Suc j) < 2 ^ 63" "int (Suc k) < 2 ^ 63"
  shows "\<not> sint i < sint i'"
proof
  assume lt: "sint i < sint i'"
  from first(1) have ev: "Dial i a r \<in> set (dial_events net (of_nat (Suc j))
       (dials (round_start net t maxRetry ports j)) (pending net t maxRetry ports j))"
    by (simp only: dial_in_round_events)
  from later have ev': "Dial i' a r' \<in> set (dial_events net (of_nat (Suc k))
       (dials (round_start net t maxRetry ports k)) (pending net t maxRetry ports k))"
    by (simp only: dial_in_round_events)
  from dial_events_port [OF ev] obtain p
    where i: "i = of_nat (Suc j)" and p: "p \<in> set (pending net t maxRetry ports j)"
      and a: "a = '':'' @ p"
    by blast
  from dial_events_port [OF ev'] obtain p'
    where i': "i' = of_nat (Suc k)" and p': "p' \<in> set (pending net t maxRetry ports k)"
      and a': "a = '':'' @ p'"
    by blast
  have same: "p' = p"
    using a a' by simp
  have "sint i = int (Suc j)" and "sint i' = int (Suc k)"
    unfolding i i' using bound by (simp_all only: sint_of_nat_small)
  then have "Suc j \<le> k"
    using lt by linarith
  then have "set (pending net t maxRetry ports k) \<subseteq> set (pending net t maxRetry ports (Suc j))"
    by (rule set_pending_le)
  then have "p \<in> set (pending net t maxRetry ports (Suc j))"
    using p' same by blast
  moreover have "p \<notin> set (pending net t maxRetry ports (Suc j))"
    unfolding pending_Suc
    using distinct_pending [OF assms(1)] ev first(2) unfolding a
    by (rule dial_events_connected)
  ultimately show False
    by contradiction
qed

text \<open>Below the largest budget the call always returns, after at most that many rounds.\<close>

lemma WaitServiceOnline_returns:
  assumes "sint maxRetry < 2 ^ 63 - 1"
  shows "\<exists>out s n. WaitServiceOnline net t maxRetry ports = Some (out, s)
           \<and> int n \<le> max 0 (sint maxRetry)
           \<and> closedPorts s = pending net t maxRetry ports n
           \<and> (\<forall>i a r. Dial i a r \<in> set (trace s) \<longleftrightarrow>
                 (\<exists>k<n. Dial i a r \<in> set (round_events net t maxRetry ports k)))"
proof (cases "\<exists>m. 0 < m \<and> int m \<le> sint maxRetry \<and> pending net t maxRetry ports m = []")
  case True
  then obtain m where m: "0 < m \<and> int m \<le> sint maxRetry \<and> pending net t maxRetry ports m = []"
      and least: "\<forall>j<m. \<not> (0 < j \<and> int j \<le> sint maxRetry \<and> pending net t maxRetry ports j = [])"
    using exists_least_iff [of "\<lambda>m. 0 < m \<and> int m \<le> sint maxRetry
        \<and> pending net t maxRetry ports m = []"] by blast
  obtain k where k: "m = Suc k"
    using m by (cases m) auto
  have ne: "\<forall>j. 0 < j \<and> j < m \<longrightarrow> pending net t maxRetry ports j \<noteq> []"
    using least m by force
  have run: "WaitServiceOnline net t maxRetry ports =
      Some (Return None, run_round net t maxRetry (of_nat m) (round_start net t maxRetry ports (m - 1)))"
    using m ne by (intro WaitServiceOnline_success) auto
  show ?thesis
    apply (rule exI [of _ "Return None"])
    apply (rule exI [of _ "run_round net t maxRetry (of_nat (Suc k)) (round_start net t maxRetry ports k)"])
    apply (rule exI [of _ "Suc k"])
    using run m unfolding k
    apply (simp only: diff_Suc_1 run_round_pending dial_in_trace_run_round)
    apply simp
    done
next
  case False
  have ne: "\<forall>j. 0 < j \<and> j \<le> nat (sint maxRetry) \<longrightarrow> pending net t maxRetry ports j \<noteq> []"
  proof (intro allI impI)
    fix j
    assume j: "0 < j \<and> j \<le> nat (sint maxRetry)"
    then have "int j \<le> sint maxRetry"
      by linarith
    then show "pending net t maxRetry ports j \<noteq> []"
      using False j by blast
  qed
  have run: "WaitServiceOnline net t maxRetry ports =
    Some (time_out t maxRetry (round_start net t maxRetry ports (nat (sint maxRetry))),
          round_start net t maxRetry ports (nat (sint maxRetry)))"
    using ne assms by (rule WaitServiceOnline_timeout)
  show ?thesis
    apply (rule exI [of _ "time_out t maxRetry (round_start net t maxRetry ports (nat (sint maxRetry)))"])
    apply (rule exI [of _ "round_start net t maxRetry ports (nat (sint maxRetry))"])
    apply (rule exI [of _ "nat (sint maxRetry)"])
    using run
    apply (simp only: dial_in_trace_round_start)
    apply (simp add: pending_def)
    done
qed

text \<open>
  C10, as stated, fails for a port that is listed twice. With the ports 80 and 80, a
  budget of two rounds and a network on which only the second dial is answered, port 80
  is dialled twice in round 1; the second of these dials succeeds, one entry stays
  pending, and port 80 is dialled again in round 2.
\<close>

theorem WaitServiceOnline_duplicate_port_redialed:
  "WaitServiceOnline net_only_second_dial None 2 [''80'', ''80''] =
     Some (Return (Some ''Time out: reached max 2 retries. Error: connection refused''),
       \<lparr>closedPorts = [''80''], returnErr = Some ''connection refused'', dials = 3,
        trace = [LogPrint ''Retry 1/2: Waiting for ports: 80, 80'',
                 Dial 1 '':80'' (DialResult False (Some ''connection refused'')),
                 Dial 1 '':80'' (DialResult True None),
                 Sleep,
                 LogPrint ''Retry 2/2: Waiting for ports: 80'',
                 Dial 2 '':80'' (DialResult False (Some ''connection refused'')),
                 Sleep]\<rparr>)"
  by code_simp

text \<open>
  C10, amended. After every round the pending list is a subsequence of the list pending
  before the round, and so of the port list: order is kept, and nothing is added or
  repeated. For a budget below the largest \<open>int\<close> the call returns, and the list
  pending at its end is a subsequence of the port list; if moreover no port is listed
  twice, no port whose dial gave a connection in one round is dialled in a later round.
\<close>

theorem WaitServiceOnline_pending_subseq:
  "(\<forall>k. subseq (pending net t maxRetry ports k) ports
        \<and> subseq (pending net t maxRetry ports (Suc k)) (pending net t maxRetry ports k))
   \<and> (sint maxRetry < 2 ^ 63 - 1 \<longrightarrow>
        (\<exists>out s. WaitServiceOnline net t maxRetry ports = Some (out, s)
           \<and> subseq (closedPorts s) ports
           \<and> (distinct ports \<longrightarrow>
                (\<forall>i a r i' r'. Dial i a r \<in> set (trace s) \<and> conn_ok r
                     \<and> Dial i' a r' \<in> set (trace s) \<longrightarrow> \<not> sint i < sint i'))))"
proof (intro conjI allI impI)
  fix k
  show "subseq (pending net t maxRetry ports k) ports"
    by (rule subseq_pending)
  show "subseq (pending net t maxRetry ports (Suc k)) (pending net t maxRetry ports k)"
    by (rule subseq_pending_Suc)
next
  assume small: "sint maxRetry < 2 ^ 63 - 1"
  from WaitServiceOnline_returns [OF small, of net t ports] obtain out s n
    where run: "WaitServiceOnline net t maxRetry ports = Some (out, s)"
      and n: "int n \<le> max 0 (sint maxRetry)"
      and closed: "closedPorts s = pending net t maxRetry ports n"
      and tr: "\<And>i a r. Dial i a r \<in> set (trace s) \<longleftrightarrow>
                 (\<exists>k<n. Dial i a r \<in> set (round_events net t maxRetry ports k))"
    by blast
  have bound: "int (Suc k) < 2 ^ 63" if "k < n" for k
    using that n small by linarith
  have once: "\<not> sint i < sint i'"
    if "distinct ports" and "Dial i a r \<in> set (trace s)" and "conn_ok r"
      and "Dial i' a r' \<in> set (trace s)" for i a r i' r'
  proof -
    from that(2) obtain j where j: "j < n"
        "Dial i a r \<in> set (round_events net t maxRetry ports j)"
      unfolding tr by blast
    from that(4) obtain k where k: "k < n"
        "Dial i' a r' \<in> set (round_events net t maxRetry ports k)"
      unfolding tr by blast
    show ?thesis
      using that(1) j(2) that(3) k(2) bound [OF j(1)] bound [OF k(1)]
      by (rule no_dial_after_connection)
  qed
  show "\<exists>out s. WaitServiceOnline net t maxRetry ports = Some (out, s)
           \<and> subseq (closedPorts s) ports
           \<and> (distinct ports \<longrightarrow>
                (\<forall>i a r i' r'. Dial i a r \<in> set (trace s) \<and> conn_ok r
                     \<and> Dial i' a r' \<in> set (trace s) \<longrightarrow> \<not> sint i < sint i'))"
    using run closed subseq_pending [of net t maxRetry ports n] once
    by (intro exI [of _ out] exI [of _ s]) auto
qed

theorem WaitServiceOnline_pending_subseq_witness:
  "sint (3 :: go_int) < 2 ^ 63 - 1
   \<and> distinct [''81'', ''5550'']
   \<and> (\<forall>k. subseq (pending net_only_81 None 3 [''81'', ''5550''] k) [''81'', ''5550''])
   \<and> (\<exists>out s. WaitServiceOnline net_only_81 None 3 [''81'', ''5550''] = Some (out, s)
         \<and> subseq (closedPorts s) [''81'', ''5550'']
         \<and> (\<forall>i a r i' r'. \<not> (Dial i a r \<in> set (trace s) \<and> conn_ok r
               \<and> Dial i' a r' \<in> set (trace s) \<and> sint i < sint i')))"
  using WaitServiceOnline_pending_subseq [of net_only_81 None 3 "[''81'', ''5550'']"]
  by simp blast

section \<open>Properties of the binding checks\<close>

lemma isListenInterface_closed:
  assumes "lsof exec port = []"
  shows "isListenInterface exec t addr port =
    (FailedNow, (Logf t (''Port '' @ port @ '' is not open''))\<lparr>failed := True\<rparr>)"
  using assms by (simp add: isListenInterface_def filterOpenPorts_def Fatalf_def)

lemma isListenInterface_open:
  assumes "lsof exec port \<noteq> []"
  shows "isListenInterface exec t addr port =
    (Done (Contains (lsof exec port) (listen_token addr port)),
     Logf t (''Looking for '' @ [CHR 0x27] @ listen_token addr port @ [CHR 0x27]))"
  using assms by (simp add: isListenInterface_def filterOpenPorts_def Let_def)

lemma failed_Logf: "failed (Logf t msg) = failed t"
  by (simp add: Logf_def)

lemma failed_Errorf: "failed (Errorf t msg)"
  by (simp add: Errorf_def)

subsection \<open>The loops on ports that are all listed\<close>

lemma all_interfaces_loop_open:
  assumes "\<forall>p\<in>set ports. lsof exec p \<noteq> []"
  shows "\<exists>t'. all_interfaces_loop exec mustListen ports t = (Done (), t')
    \<and> (failed t' \<longleftrightarrow> failed t
          \<or> (\<exists>p\<in>set ports. mustListen \<noteq> Contains (lsof exec p) (listen_token ''*'' p)))"
  using assms
proof (induction ports arbitrary: t)
  case Nil
  show ?case by simp
next
  case (Cons port rest)
  let ?isListening = "Contains (lsof exec port) (listen_token ''*'' port)"
  let ?t1 = "Logf t (''Looking for '' @ [CHR 0x27] @ listen_token ''*'' port @ [CHR 0x27])"
  let ?t2 = "if mustListen \<and> \<not> ?isListening
             then Errorf ?t1 (''Port '' @ port @ '' not listening to all interfaces'')
             else if \<not> mustListen \<and> ?isListening
             then Errorf ?t1 (''Port '' @ port @ '' is listening to all interfaces'')
             else ?t1"
  have "lsof exec port \<noteq> []"
    using Cons.prems by simp
  then have step: "all_interfaces_loop exec mustListen (port # rest) t =
      all_interfaces_loop exec mustListen rest ?t2"
    by (simp add: isListenInterface_open)
  have t2: "failed ?t2 \<longleftrightarrow> failed t \<or> mustListen \<noteq> ?isListening"
    by (auto simp: failed_Logf failed_Errorf)
  from Cons.IH [of ?t2] Cons.prems obtain t'
    where "all_interfaces_loop exec mustListen rest ?t2 = (Done (), t')"
      and "failed t' \<longleftrightarrow> failed ?t2
          \<or> (\<exists>p\<in>set rest. mustListen \<noteq> Contains (lsof exec p) (listen_token ''*'' p))"
    by auto
  then show ?case
    unfolding step t2 by auto
qed

lemma loopback_loop_open:
  assumes "\<forall>p\<in>set ports. lsof exec p \<noteq> []"
  shows "\<exists>t'. loopback_loop exec ports t = (Done (), t')
    \<and> (failed t' \<longleftrightarrow> failed t
          \<or> (\<exists>p\<in>set ports. \<not> Contains (lsof exec p) (listen_token ''127.0.0.1'' p)))"
  using assms
proof (induction ports arbitrary: t)
  case Nil
  show ?case by simp
next
  case (Cons port rest)
  let ?isListening = "Contains (lsof exec port) (listen_token ''127.0.0.1'' port)"
  let ?t1 = "Logf t (''Looking for '' @ [CHR 0x27] @ listen_token ''127.0.0.1'' port @ [CHR 0x27])"
  let ?t2 = "if \<not> ?isListening
             then Errorf ?t1 (''Port '' @ port @ '' is not restricted to listen on loopback interface'')
             else ?t1"
  have "lsof exec port \<noteq> []"
    using Cons.prems by simp
  then have step: "loopback_loop exec (port # rest) t = loopback_loop exec rest ?t2"
    by (simp add: isListenInterface_open)
  have t2: "failed ?t2 \<longleftrightarrow> failed t \<or> \<not> ?isListening"
    by (auto simp: failed_Logf failed_Errorf)
  from Cons.IH [of ?t2] Cons.prems obtain t'
    where "loopback_loop exec rest ?t2 = (Done (), t')"
      and "failed t' \<longleftrightarrow> failed ?t2
          \<or> (\<exists>p\<in>set rest. \<not> Contains (lsof exec p) (listen_token ''127.0.0.1'' p))"
    by auto
  then show ?case
    unfolding step t2 by auto
qed

subsection \<open>The loops up to the first port that is not listed\<close>

lemma all_interfaces_loop_append:
  "all_interfaces_loop exec mustListen (ps @ qs) t =
     (case all_interfaces_loop exec mustListen ps t of
        (Done u, t') \<Rightarrow> all_interfaces_loop exec mustListen qs t'
      | (FailedNow, t') \<Rightarrow> (FailedNow, t')
      | (Panicked m, t') \<Rightarrow> (Panicked m, t'))"
proof (induction ps arbitrary: t)
  case Nil
  show ?case by simp
next
  case (Cons p ps)
  obtain c t1 where r: "isListenInterface exec t ''*'' p = (c, t1)"
    by (cases "isListenInterface exec t ''*'' p")
  show ?case
  proof (cases c)
    case (Done b)
    show ?thesis
      apply (simp only: append_Cons all_interfaces_loop.simps r Done prod.case ctl.case)
      apply (rule Cons.IH)
      done
  next
    case FailedNow
    show ?thesis
      by (simp only: append_Cons all_interfaces_loop.simps r FailedNow prod.case ctl.case)
  next
    case (Panicked m)
    show ?thesis
      by (simp only: append_Cons all_interfaces_loop.simps r Panicked prod.case ctl.case)
  qed
qed

lemma loopback_loop_append:
  "loopback_loop exec (ps @ qs) t =
     (case loopback_loop exec ps t of
        (Done u, t') \<Rightarrow> loopback_loop exec qs t'
      | (FailedNow, t') \<Rightarrow> (FailedNow, t')
      | (Panicked m, t') \<Rightarrow> (Panicked m, t'))"
proof (induction ps arbitrary: t)
  case Nil
  show ?case by simp
next
  case (Cons p ps)
  obtain c t1 where r: "isListenInterface exec t ''127.0.0.1'' p = (c, t1)"
    by (cases "isListenInterface exec t ''127.0.0.1'' p")
  show ?case
  proof (cases c)
    case (Done b)
    show ?thesis
      apply (simp only: append_Cons loopback_loop.simps r Done prod.case ctl.case)
      apply (rule Cons.IH)
      done
  next
    case FailedNow
    show ?thesis
      by (simp only: append_Cons loopback_loop.simps r FailedNow prod.case ctl.case)
  next
    case (Panicked m)
    show ?thesis
      by (simp only: append_Cons loopback_loop.simps r Panicked prod.case ctl.case)
  qed
qed

lemma all_interfaces_loop_open_Done:
  assumes "\<forall>q\<in>set before. lsof exec q \<noteq> []"
  shows "\<exists>t'. all_interfaces_loop exec mustListen before t = (Done (), t')"
proof -
  from all_interfaces_loop_open [OF assms, of mustListen t]
  show ?thesis by (elim exE conjE) (rule exI)
qed

lemma loopback_loop_open_Done:
  assumes "\<forall>q\<in>set before. lsof exec q \<noteq> []"
  shows "\<exists>t'. loopback_loop exec before t = (Done (), t')"
proof -
  from loopback_loop_open [OF assms, of t]
  show ?thesis by (elim exE conjE) (rule exI)
qed

lemma all_interfaces_loop_closed:
  assumes "all_interfaces_loop exec mustListen before t = (Done (), t')"
    and "lsof exec port = []"
  shows "all_interfaces_loop exec mustListen (before @ port # rest) t =
      (FailedNow, (Logf t' (''Port '' @ port @ '' is not open''))\<lparr>failed := True\<rparr>)"
  apply (subst all_interfaces_loop_append)
  apply (simp only: assms(1) prod.case ctl.case)
  apply (simp only: all_interfaces_loop.simps isListenInterface_closed [OF assms(2)]
      prod.case ctl.case)
  done

lemma loopback_loop_closed:
  assumes "loopback_loop exec before t = (Done (), t')"
    and "lsof exec port = []"
  shows "loopback_loop exec (before @ port # rest) t =
      (FailedNow, (Logf t' (''Port '' @ port @ '' is not open''))\<lparr>failed := True\<rparr>)"
  apply (subst loopback_loop_append)
  apply (simp only: assms(1) prod.case ctl.case)
  apply (simp only: loopback_loop.simps isListenInterface_closed [OF assms(2)]
      prod.case ctl.case)
  done

lemma fail_now_if_failed_FailedNow: "fail_now_if_failed (FailedNow, t) = (FailedNow, t)"
  by (simp add: fail_now_if_failed_def)

lemma fail_now_if_failed_Done:
  "fail_now_if_failed (Done u, t) = (if failed t then FailedNow else Done (), t)"
  by (simp add: fail_now_if_failed_def)

lemma requireListenAllInterfaces_closed:
  assumes "all_interfaces_loop exec mustListen before t = (Done (), t')"
    and "lsof exec port = []"
  shows "requireListenAllInterfaces exec t mustListen (before @ port # rest) =
      (FailedNow, (Logf t' (''Port '' @ port @ '' is not open''))\<lparr>failed := True\<rparr>)"
proof -
  have "length (before @ port # rest) \<noteq> 0"
    by simp
  then show ?thesis
    by (simp only: requireListenAllInterfaces_def if_False
        all_interfaces_loop_closed [OF assms] fail_now_if_failed_FailedNow)
qed

lemma requireListenLoopback_closed:
  assumes "loopback_loop exec before t = (Done (), t')"
    and "lsof exec port = []"
  shows "requireListenLoopback exec t (before @ port # rest) =
      (FailedNow, (Logf t' (''Port '' @ port @ '' is not open''))\<lparr>failed := True\<rparr>)"
proof -
  have "length (before @ port # rest) \<noteq> 0"
    by simp
  then show ?thesis
    by (simp only: requireListenLoopback_def if_False
        loopback_loop_closed [OF assms] fail_now_if_failed_FailedNow)
qed

text \<open>
  C6. Let a port have an empty listing. Whatever address is looked for,
  \<open>isListenInterface\<close> then stops the test through \<open>t.Fatalf\<close> with the line
  \<open>Port <port> is not open\<close>. In a check over a list of ports in which the ports
  before this one are all listed, the check ends at this port: it stops the test, the
  test is marked failed, the last line logged is that line, and the ports after it
  play no role. This holds for \<open>requireListenAllInterfaces\<close>, whether it is asked
  that the ports listen on all interfaces or that they do not, and for
  \<open>requireListenLoopback\<close>.
\<close>

theorem unlisted_port_is_fatal:
  assumes "lsof exec port = []" and "\<forall>q\<in>set before. lsof exec q \<noteq> []"
  shows "(\<forall>addr t. isListenInterface exec t addr port =
            (FailedNow, (Logf t (''Port '' @ port @ '' is not open''))\<lparr>failed := True\<rparr>))
       \<and> (\<exists>t'. requireListenAllInterfaces exec t mustListen (before @ port # rest) = (FailedNow, t')
             \<and> failed t' \<and> last (logged t') = ''Port '' @ port @ '' is not open''
             \<and> requireListenAllInterfaces exec t mustListen (before @ [port]) = (FailedNow, t'))
       \<and> (\<exists>t'. requireListenLoopback exec t (before @ port # rest) = (FailedNow, t')
             \<and> failed t' \<and> last (logged t') = ''Port '' @ port @ '' is not open''
             \<and> requireListenLoopback exec t (before @ [port]) = (FailedNow, t'))"
proof -
  let ?msg = "''Port '' @ port @ '' is not open''"
  have fatal: "failed ((Logf t0 ?msg)\<lparr>failed := True\<rparr>)
      \<and> last (logged ((Logf t0 ?msg)\<lparr>failed := True\<rparr>)) = ?msg" for t0
    by (simp add: Logf_def)
  have one: "\<forall>addr t. isListenInterface exec t addr port =
      (FailedNow, (Logf t ?msg)\<lparr>failed := True\<rparr>)"
    using assms(1) by (simp only: isListenInterface_closed) simp
  obtain t1 where t1: "all_interfaces_loop exec mustListen before t = (Done (), t1)"
    using all_interfaces_loop_open_Done [OF assms(2)] by blast
  have two: "\<exists>t'. requireListenAllInterfaces exec t mustListen (before @ port # rest) = (FailedNow, t')
      \<and> failed t' \<and> last (logged t') = ?msg
      \<and> requireListenAllInterfaces exec t mustListen (before @ [port]) = (FailedNow, t')"
    using requireListenAllInterfaces_closed [OF t1 assms(1), of rest]
      requireListenAllInterfaces_closed [OF t1 assms(1), of "[]"] fatal [of t1]
    by (intro exI [of _ "(Logf t1 ?msg)\<lparr>failed := True\<rparr>"]) (simp only: simp_thms)
  obtain t2 where t2: "loopback_loop exec before t = (Done (), t2)"
    using loopback_loop_open_Done [OF assms(2)] by blast
  have three: "\<exists>t'. requireListenLoopback exec t (before @ port # rest) = (FailedNow, t')
      \<and> failed t' \<and> last (logged t') = ?msg
      \<and> requireListenLoopback exec t (before @ [port]) = (FailedNow, t')"
    using requireListenLoopback_closed [OF t2 assms(1), of rest]
      requireListenLoopback_closed [OF t2 assms(1), of "[]"] fatal [of t2]
    by (intro exI [of _ "(Logf t2 ?msg)\<lparr>failed := True\<rparr>"]) (simp only: simp_thms)
  from one two three show ?thesis
    by (intro conjI)
qed

theorem unlisted_port_is_fatal_witness:
  "lsof shell_loopback ''80'' = []
   \<and> lsof shell_loopback ''5550'' \<noteq> []
   \<and> isListenInterface shell_loopback (test_T ''TestNet/net'') ''*'' ''80'' =
       (FailedNow, \<lparr>Name = ''TestNet/net'', failed = True, logged = [''Port 80 is not open'']\<rparr>)
   \<and> (\<exists>t'. requireListenAllInterfaces shell_loopback (test_T ''TestNet/net'') False
               [''5550'', ''80'', ''81''] = (FailedNow, t')
         \<and> failed t' \<and> last (logged t') = ''Port 80 is not open'')
   \<and> (\<exists>t'. requireListenLoopback shell_loopback (test_T ''TestNet/net'')
               [''5550'', ''80'', ''81''] = (FailedNow, t')
         \<and> failed t' \<and> last (logged t') = ''Port 80 is not open'')"
proof -
  have closed: "lsof shell_loopback ''80'' = []"
    by (simp add: lsof_def shell_loopback_def)
  have listed: "lsof shell_loopback ''5550'' \<noteq> []"
    by (simp add: lsof_def shell_loopback_def)
  then have before: "\<forall>q\<in>set [''5550'']. lsof shell_loopback q \<noteq> []"
    by simp
  from unlisted_port_is_fatal [OF closed before, of "test_T ''TestNet/net''" False "[''81'']"]
  show ?thesis
    using closed listed by (simp add: test_T_def Logf_def) blast
qed

subsection \<open>The checks on ports that are all listed\<close>

lemma requireListenAllInterfaces_open:
  assumes "ports \<noteq> []" and "\<forall>p\<in>set ports. lsof exec p \<noteq> []"
  shows "\<exists>c t'. requireListenAllInterfaces exec t mustListen ports = (c, t')
    \<and> (c = FailedNow \<or> c = Done ())
    \<and> (failed t' \<longleftrightarrow> failed t
          \<or> (\<exists>p\<in>set ports. mustListen \<noteq> Contains (lsof exec p) (listen_token ''*'' p)))"
proof -
  from all_interfaces_loop_open [OF assms(2), of mustListen t]
  obtain t' where loop: "all_interfaces_loop exec mustListen ports t = (Done (), t')"
    and f: "failed t' \<longleftrightarrow> failed t
          \<or> (\<exists>p\<in>set ports. mustListen \<noteq> Contains (lsof exec p) (listen_token ''*'' p))"
    by (elim exE conjE)
  have "requireListenAllInterfaces exec t mustListen ports =
      (if failed t' then FailedNow else Done (), t')"
    using assms(1) by (simp add: requireListenAllInterfaces_def loop fail_now_if_failed_Done)
  then show ?thesis
    using f by (intro exI [of _ "if failed t' then FailedNow else Done ()"] exI [of _ t']) simp
qed

lemma requireListenLoopback_open:
  assumes "ports \<noteq> []" and "\<forall>p\<in>set ports. lsof exec p \<noteq> []"
  shows "\<exists>c t'. requireListenLoopback exec t ports = (c, t')
    \<and> (c = FailedNow \<or> c = Done ())
    \<and> (failed t' \<longleftrightarrow> failed t
          \<or> (\<exists>p\<in>set ports. \<not> Contains (lsof exec p) (listen_token ''127.0.0.1'' p)))"
proof -
  from loopback_loop_open [OF assms(2), of t]
  obtain t' where loop: "loopback_loop exec ports t = (Done (), t')"
    and f: "failed t' \<longleftrightarrow> failed t
          \<or> (\<exists>p\<in>set ports. \<not> Contains (lsof exec p) (listen_token ''127.0.0.1'' p))"
    by (elim exE conjE)
  have "requireListenLoopback exec t ports = (if failed t' then FailedNow else Done (), t')"
    using assms(1) by (simp add: requireListenLoopback_def loop fail_now_if_failed_Done)
  then show ?thesis
    using f by (intro exI [of _ "if failed t' then FailedNow else Done ()"] exI [of _ t']) simp
qed

lemma Run_no_panic:
  assumes "f \<lparr>Name = Name t @ ''/'' @ rewrite name, failed = False, logged = []\<rparr> = (c, sub)"
    and "c = FailedNow \<or> c = Done ()"
  shows "Run t name f =
    (Done (\<not> failed sub), t\<lparr>failed := failed t \<or> failed sub, logged := logged t @ logged sub\<rparr>)"
  using assms by (auto simp: Run_def)

text \<open>
  C5. Let the port list be non-empty, let every port on it have a non-empty listing,
  and let the wait for the ports have returned (so that the two checks run), in a test
  that has not failed before. Then \<open>testBindLoopback\<close>, which asks that the ports do
  not listen on all interfaces and that they listen on the loopback address, runs to
  its end, and the test passes if and only if the listing of every port contains
  \<open>127.0.0.1:<port> (LISTEN)\<close> and does not contain \<open>*:<port> (LISTEN)\<close>.
\<close>

theorem testBindLoopback_passes_iff:
  assumes "ports \<noteq> []"
    and "\<forall>p\<in>set ports. lsof exec p \<noteq> []"
    and "\<not> failed t"
    and "WaitServiceOnline net (Some t) 60 ports = Some (Return err, s)"
  shows "\<exists>t'. testBindLoopback net exec t snapName ports = Some (Done (), t')
    \<and> (\<not> failed t' \<longleftrightarrow>
         (\<forall>p\<in>set ports. Contains (lsof exec p) (''127.0.0.1:'' @ p @ '' (LISTEN)'')
                        \<and> \<not> Contains (lsof exec p) (''*:'' @ p @ '' (LISTEN)'')))"
proof -
  let ?t0 = "t\<lparr>logged := logged t @ tlogs (trace s)\<rparr>"
  let ?sub1 = "\<lparr>Name = Name ?t0 @ ''/'' @ rewrite ''ports not listening on all interfaces'',
               failed = False, logged = []\<rparr>"
  from requireListenAllInterfaces_open [OF assms(1,2), of ?sub1 False]
  obtain c1 s1 where r1: "requireListenAllInterfaces exec ?sub1 False ports = (c1, s1)"
    and c1: "c1 = FailedNow \<or> c1 = Done ()"
    and f1: "failed s1 \<longleftrightarrow> failed ?sub1
          \<or> (\<exists>p\<in>set ports. False \<noteq> Contains (lsof exec p) (listen_token ''*'' p))"
    by (elim exE conjE)
  let ?t1 = "?t0\<lparr>failed := failed ?t0 \<or> failed s1, logged := logged ?t0 @ logged s1\<rparr>"
  have run1: "Run ?t0 ''ports not listening on all interfaces''
      (\<lambda>t. requireListenAllInterfaces exec t False ports) = (Done (\<not> failed s1), ?t1)"
    using r1 c1 by (rule Run_no_panic)
  let ?sub2 = "\<lparr>Name = Name ?t1 @ ''/'' @ rewrite ''ports listening on localhost'',
               failed = False, logged = []\<rparr>"
  from requireListenLoopback_open [OF assms(1,2), of ?sub2]
  obtain c2 s2 where r2: "requireListenLoopback exec ?sub2 ports = (c2, s2)"
    and c2: "c2 = FailedNow \<or> c2 = Done ()"
    and f2: "failed s2 \<longleftrightarrow> failed ?sub2
          \<or> (\<exists>p\<in>set ports. \<not> Contains (lsof exec p) (listen_token ''127.0.0.1'' p))"
    by (elim exE conjE)
  let ?t2 = "?t1\<lparr>failed := failed ?t1 \<or> failed s2, logged := logged ?t1 @ logged s2\<rparr>"
  have run2: "Run ?t1 ''ports listening on localhost''
      (\<lambda>t. requireListenLoopback exec t ports) = (Done (\<not> failed s2), ?t2)"
    using r2 c2 by (rule Run_no_panic)
  have result: "testBindLoopback net exec t snapName ports = Some (Done (), ?t2)"
    unfolding testBindLoopback_def assms(4)
    by (simp only: option.case prod.case outcome.case Let_def run1 run2 ctl.case)
  have "failed ?t2 \<longleftrightarrow> failed s1 \<or> failed s2"
    using assms(3) by simp
  also have "\<dots> \<longleftrightarrow> (\<exists>p\<in>set ports. Contains (lsof exec p) (listen_token ''*'' p))
      \<or> (\<exists>p\<in>set ports. \<not> Contains (lsof exec p) (listen_token ''127.0.0.1'' p))"
    unfolding f1 f2 by simp
  finally have "\<not> failed ?t2 \<longleftrightarrow>
      (\<forall>p\<in>set ports. Contains (lsof exec p) (''127.0.0.1:'' @ p @ '' (LISTEN)'')
                     \<and> \<not> Contains (lsof exec p) (''*:'' @ p @ '' (LISTEN)''))"
    by (auto simp: listen_token_def)
  with result show ?thesis
    by (intro exI [of _ ?t2] conjI)
qed

theorem testBindLoopback_passes_iff_witness:
  "(\<exists>t'. testBindLoopback net_open shell_loopback (test_T ''TestNet/net'') ''matter'' [''5550'']
            = Some (Done (), t') \<and> \<not> failed t')
   \<and> Contains (lsof shell_loopback ''5550'') ''127.0.0.1:5550 (LISTEN)''
   \<and> \<not> Contains (lsof shell_loopback ''5550'') ''*:5550 (LISTEN)''
   \<and> (\<exists>t'. testBindLoopback net_open shell_wildcard (test_T ''TestNet/net'') ''matter'' [''5550'']
            = Some (Done (), t') \<and> failed t')
   \<and> Contains (lsof shell_wildcard ''5550'') ''*:5550 (LISTEN)''"
proof -
  let ?t = "test_T ''TestNet/net''"
  have msg: "retry_msg 1 60 [''5550''] = ''Retry 1/60: Waiting for ports: 5550 (chip-tool)''"
    by (simp add: retry_msg_def prettyPorts_def portService_def Itoa_def decimal.simps
        digit_char_def)
  have online: "WaitServiceOnline net_open (Some ?t) 60 [''5550''] =
      Some (Return None,
        \<lparr>closedPorts = [], returnErr = None, dials = 1,
         trace = [TLog ''Retry 1/60: Waiting for ports: 5550 (chip-tool)'',
                  Dial 1 '':5550'' (DialResult True None)]\<rparr>)"
    unfolding WaitServiceOnline_def
    by (subst retry_loop.simps) (simp add: run_round_def msg net_open_def log_msg_def)
  have ne: "[''5550''] \<noteq> []" and unfailed: "\<not> failed ?t"
    by (simp_all add: test_T_def)
  have l1: "lsof shell_loopback ''5550'' =
      ''chip-tool 812 root 7u IPv4 31337 0t0 TCP 127.0.0.1:5550 (LISTEN)''"
    by (simp add: lsof_def shell_loopback_def)
  have l2: "lsof shell_wildcard ''5550'' =
      ''chip-tool 812 root 7u IPv4 31337 0t0 TCP *:5550 (LISTEN)''"
    by (simp add: lsof_def shell_wildcard_def)
  have listed1: "\<forall>p\<in>set [''5550'']. lsof shell_loopback p \<noteq> []"
    by (simp add: l1)
  have listed2: "\<forall>p\<in>set [''5550'']. lsof shell_wildcard p \<noteq> []"
    by (simp add: l2)
  have c1: "Contains (lsof shell_loopback ''5550'') ''127.0.0.1:5550 (LISTEN)''"
    unfolding l1 by code_simp
  have c2: "\<not> Contains (lsof shell_loopback ''5550'') ''*:5550 (LISTEN)''"
    unfolding l1 by code_simp
  have c3: "Contains (lsof shell_wildcard ''5550'') ''*:5550 (LISTEN)''"
    unfolding l2 by code_simp
  from testBindLoopback_passes_iff [OF ne listed1 unfailed online, of "''matter''"] c1 c2
  have w1: "\<exists>t'. testBindLoopback net_open shell_loopback ?t ''matter'' [''5550'']
            = Some (Done (), t') \<and> \<not> failed t'"
    by simp
  from testBindLoopback_passes_iff [OF ne listed2 unfailed online, of "''matter''"] c3
  have w2: "\<exists>t'. testBindLoopback net_open shell_wildcard ?t ''matter'' [''5550'']
            = Some (Done (), t') \<and> failed t'"
    by simp
  from w1 c1 c2 w2 c3 show ?thesis
    by (intro conjI)
qed

section \<open>Properties of log.go\<close>

subsection \<open>Waiting for a log message\<close>

lemma find_upt_step:
  assumes "r < n"
  shows "find P [r..<n] = (if P r then Some r else find P [Suc r..<n])"
  using assms by (simp add: upt_conv_Cons)

text \<open>
  The loop entered with counter \<open>r + 1\<close> after \<open>r\<close> reads: it ends at the first read
  from \<open>r\<close> on, below 10, that shows the expected text, and in the time-out after read
  number 10 when there is none.
\<close>

lemma wait_log_loop_find:
  assumes "r \<le> 10"
  shows "case find (\<lambda>n. Contains (SnapLogs n since snap) expectedLog) [r..<10] of
      Some k \<Rightarrow>
        (\<exists>t'. wait_log_loop SnapLogs snap expectedLog since (int (Suc r)) (t, r)
                 = (Done (), t', Suc k) \<and> failed t' = failed t)
    | None \<Rightarrow>
        (\<exists>t'. wait_log_loop SnapLogs snap expectedLog since (int (Suc r)) (t, r)
                 = (FailedNow, t', 10) \<and> failed t'
               \<and> last (logged t') = ''Time out: reached max 10 retries.'')"
  using assms
proof (induction "10 - r" arbitrary: r t)
  case 0
  then have r: "r = 10" by simp
  have ten: "Itoa 10 = ''10''"
    by (simp add: Itoa_def decimal.simps digit_char_def)
  show ?case
    unfolding r
    by (subst wait_log_loop.simps) (simp add: Fatalf_def Logf_def ten)
next
  case (Suc d)
  then have lt: "r < 10" by simp
  let ?P = "\<lambda>n. Contains (SnapLogs n since snap) expectedLog"
  let ?t1 = "Logf t (''Retry '' @ Itoa (int (Suc r)) @ ''/'' @ Itoa 10
                     @ '': Waiting for expected content in logs: '' @ expectedLog)"
  have le: "int (Suc r) \<le> 10"
    using lt by simp
  have inc: "int (Suc r) + 1 = int (Suc (Suc r))"
    by simp
  show ?case
  proof (cases "?P r")
    case True
    have "wait_log_loop SnapLogs snap expectedLog since (int (Suc r)) (t, r) =
        (Done (), Logf ?t1 (''Found expected content in logs: '' @ expectedLog), Suc r)"
      using le True by (subst wait_log_loop.simps) (simp only: if_True Let_def)
    moreover have "failed (Logf ?t1 (''Found expected content in logs: '' @ expectedLog)) = failed t"
      by (simp add: Logf_def)
    ultimately show ?thesis
      using True by (simp only: find_upt_step [OF lt] if_True option.case) blast
  next
    case False
    have step: "wait_log_loop SnapLogs snap expectedLog since (int (Suc r)) (t, r) =
        wait_log_loop SnapLogs snap expectedLog since (int (Suc (Suc r))) (?t1, Suc r)"
      using le False by (subst wait_log_loop.simps) (simp only: if_True if_False Let_def inc)
    have f: "failed ?t1 = failed t"
      by (simp add: Logf_def)
    have "d = 10 - Suc r" and "Suc r \<le> 10"
      using Suc.hyps(2) lt by simp_all
    from Suc.hyps(1) [OF this, of ?t1] show ?thesis
      using False by (simp only: find_upt_step [OF lt] if_False step f)
  qed
qed

text \<open>
  C7. \<open>WaitForLogMessage\<close> returns normally at the first of its reads, the reads
  number 1 to 10, whose text contains the expected one, having made no read after it;
  and when none of the ten does, it stops the test through \<open>t.Fatalf\<close> with the
  time-out line after exactly ten reads. So there is never an eleventh read, and a
  normal return always comes with a match.
\<close>

theorem WaitForLogMessage_first_match_or_timeout:
  "case find (\<lambda>n. Contains (SnapLogs n since snap) expectedLog) [0..<10] of
      Some k \<Rightarrow>
        (\<exists>t'. WaitForLogMessage SnapLogs t snap expectedLog since = (Done (), t', Suc k)
               \<and> failed t' = failed t)
        \<and> k < 10 \<and> Contains (SnapLogs k since snap) expectedLog
    | None \<Rightarrow>
        (\<exists>t'. WaitForLogMessage SnapLogs t snap expectedLog since = (FailedNow, t', 10)
               \<and> failed t'
               \<and> last (logged t') = ''Time out: reached max 10 retries.'')"
proof (cases "find (\<lambda>n. Contains (SnapLogs n since snap) expectedLog) [0..<10]")
  case None
  then show ?thesis
    using wait_log_loop_find [where r = 0 and SnapLogs = SnapLogs and since = since and snap = snap
        and expectedLog = expectedLog and t = t]
    by (simp add: WaitForLogMessage_def)
next
  case (Some k)
  then have "k \<in> set [0..<10]" and "Contains (SnapLogs k since snap) expectedLog"
    by (auto simp: find_Some_iff)
  then show ?thesis
    using Some wait_log_loop_find [where r = 0 and SnapLogs = SnapLogs and since = since and snap = snap
        and expectedLog = expectedLog and t = t]
    by (simp add: WaitForLogMessage_def)
qed

theorem WaitForLogMessage_first_match_or_timeout_witness:
  "find (\<lambda>n. Contains (journal_third_read n 0 ''matter'') ''started'') [0..<10] = Some 2
   \<and> (\<exists>t'. WaitForLogMessage journal_third_read (test_T ''TestLogs'') ''matter'' ''started'' 0
             = (Done (), t', 3) \<and> failed t' = False)
   \<and> find (\<lambda>n. Contains (journal_silent n 0 ''matter'') ''started'') [0..<10] = None
   \<and> (\<exists>t'. WaitForLogMessage journal_silent (test_T ''TestLogs'') ''matter'' ''started'' 0
             = (FailedNow, t', 10) \<and> failed t'
           \<and> last (logged t') = ''Time out: reached max 10 retries.'')"
proof -
  have f1: "find (\<lambda>n. Contains (journal_third_read n 0 ''matter'') ''started'') [0..<10] = Some 2"
    by code_simp
  have f2: "find (\<lambda>n. Contains (journal_silent n 0 ''matter'') ''started'') [0..<10] = None"
    by code_simp
  from WaitForLogMessage_first_match_or_timeout
         [where SnapLogs = journal_third_read and since = 0 and snap = "''matter''"
            and expectedLog = "''started''" and t = "test_T ''TestLogs''"]
  have w1: "\<exists>t'. WaitForLogMessage journal_third_read (test_T ''TestLogs'') ''matter'' ''started'' 0
             = (Done (), t', 3) \<and> failed t' = False"
    unfolding f1 by (simp add: test_T_def numeral_3_eq_3)
  from WaitForLogMessage_first_match_or_timeout
         [where SnapLogs = journal_silent and since = 0 and snap = "''matter''"
            and expectedLog = "''started''" and t = "test_T ''TestLogs''"]
  have w2: "\<exists>t'. WaitForLogMessage journal_silent (test_T ''TestLogs'') ''matter'' ''started'' 0
             = (FailedNow, t', 10) \<and> failed t'
           \<and> last (logged t') = ''Time out: reached max 10 retries.''"
    unfolding f2 by simp
  from f1 w1 f2 w2 show ?thesis
    by (intro conjI)
qed

subsection \<open>Writing a log file\<close>

lemma ReplaceAll_map:
  "ReplaceAll s old [new] = map (\<lambda>c. if c = old then new else c) s"
  by (induction s) simp_all

lemma logFileName_ok:
  assumes "MkdirAll os ''logs'' = None"
  shows "logFileName os (Some t) label =
    (Done (''logs/'' @ ReplaceAll (Name t) (CHR ''/'') ''-'' @ ''-'' @ label @ ''.log''), Some t)"
  using assms by (simp add: logFileName_def)

text \<open>
  C9. Under a test named \<open>T\<close>, and when neither making the directory \<open>logs\<close> nor
  writing the file fails, \<open>WriteLogFile\<close> returns nil and leaves the given content,
  byte for byte, as the content of the file \<open>logs/<T'>-<label>.log\<close>, all other files
  being as before; \<open>T'\<close> is \<open>T\<close> with every slash turned into a dash, so it holds no
  slash.
\<close>

theorem WriteLogFile_writes_content:
  assumes "MkdirAll os ''logs'' = None"
    and "WriteFile os (''logs/'' @ ReplaceAll (Name t) (CHR ''/'') ''-'' @ ''-'' @ label @ ''.log'')
           = None"
  shows "WriteLogFile os (Some t) label content fs =
           (Done None, Some t,
            fs(''logs/'' @ ReplaceAll (Name t) (CHR ''/'') ''-'' @ ''-'' @ label @ ''.log''
                 \<mapsto> content))
         \<and> ReplaceAll (Name t) (CHR ''/'') ''-''
             = map (\<lambda>c. if c = CHR ''/'' then CHR ''-'' else c) (Name t)
         \<and> CHR ''/'' \<notin> set (ReplaceAll (Name t) (CHR ''/'') ''-'')"
proof -
  have "WriteLogFile os (Some t) label content fs =
      (Done None, Some t,
       fs(''logs/'' @ ReplaceAll (Name t) (CHR ''/'') ''-'' @ ''-'' @ label @ ''.log''
            \<mapsto> content))"
    unfolding WriteLogFile_def logFileName_ok [OF assms(1)]
    using assms(2) by simp
  moreover have "ReplaceAll (Name t) (CHR ''/'') ''-''
      = map (\<lambda>c. if c = CHR ''/'' then CHR ''-'' else c) (Name t)"
    by (rule ReplaceAll_map)
  moreover have "CHR ''/'' \<notin> set (ReplaceAll (Name t) (CHR ''/'') ''-'')"
    unfolding ReplaceAll_map by auto
  ultimately show ?thesis
    by (intro conjI)
qed

theorem WriteLogFile_writes_content_witness:
  "WriteLogFile os_ok (Some (test_T ''T1'')) ''foo'' ''bar'' Map.empty =
     (Done None, Some (test_T ''T1''), [''logs/T1-foo.log'' \<mapsto> ''bar''])
   \<and> WriteLogFile os_ok (Some (test_T ''TestNet/net'')) ''snap'' ''bar'' Map.empty =
     (Done None, Some (test_T ''TestNet/net''), [''logs/TestNet-net-snap.log'' \<mapsto> ''bar''])"
proof -
  have ok: "MkdirAll os_ok ''logs'' = None" "WriteFile os_ok path = None" for path
    by (simp_all add: os_ok_def)
  from WriteLogFile_writes_content [OF ok, of "test_T ''T1''" "''foo''" "''bar''" Map.empty]
  have w1: "WriteLogFile os_ok (Some (test_T ''T1'')) ''foo'' ''bar'' Map.empty =
     (Done None, Some (test_T ''T1''), [''logs/T1-foo.log'' \<mapsto> ''bar''])"
    by (simp add: test_T_def)
  from WriteLogFile_writes_content [OF ok, of "test_T ''TestNet/net''" "''snap''" "''bar''" Map.empty]
  have w2: "WriteLogFile os_ok (Some (test_T ''TestNet/net'')) ''snap'' ''bar'' Map.empty =
     (Done None, Some (test_T ''TestNet/net''), [''logs/TestNet-net-snap.log'' \<mapsto> ''bar''])"
    by (simp add: test_T_def)
  from w1 w2 show ?thesis ..
qed

section \<open>Properties of the configuration\<close>

lemma ParseBool_cases:
  "(\<exists>b. ParseBool v = Inr b) \<or> ParseBool v = Inl (NumError ''ParseBool'' v ''invalid syntax'')"
proof (cases "v \<in> set [''1'', ''t'', ''T'', ''TRUE'', ''true'', ''True'']")
  case True
  then have "ParseBool v = Inr True"
    by (simp only: ParseBool_def if_True)
  then show ?thesis by blast
next
  case False
  show ?thesis
  proof (cases "v \<in> set [''0'', ''f'', ''F'', ''FALSE'', ''false'', ''False'']")
    case True
    with False have "ParseBool v = Inr False"
      by (simp only: ParseBool_def if_True if_False)
    then show ?thesis by blast
  next
    case no: False
    with False have "ParseBool v = Inl (NumError ''ParseBool'' v ''invalid syntax'')"
      by (simp only: ParseBool_def if_False)
    then show ?thesis by blast
  qed
qed

lemma ParseBool_fails_iff:
  "(\<exists>e. ParseBool v = Inl e) \<longleftrightarrow>
     v \<notin> set [''1'', ''t'', ''T'', ''TRUE'', ''true'', ''True'']
     \<and> v \<notin> set [''0'', ''f'', ''F'', ''FALSE'', ''false'', ''False'']"
proof (cases "v \<in> set [''1'', ''t'', ''T'', ''TRUE'', ''true'', ''True'']")
  case True
  then have "ParseBool v = Inr True"
    by (simp only: ParseBool_def if_True)
  with True show ?thesis by simp
next
  case False
  show ?thesis
  proof (cases "v \<in> set [''0'', ''f'', ''F'', ''FALSE'', ''false'', ''False'']")
    case True
    with False have "ParseBool v = Inr False"
      by (simp only: ParseBool_def if_True if_False)
    with True show ?thesis by simp
  next
    case no: False
    with False have "ParseBool v = Inl (NumError ''ParseBool'' v ''invalid syntax'')"
      by (simp only: ParseBool_def if_False)
    with False no show ?thesis by simp
  qed
qed

lemma init_cases:
  "init env =
    (let full = Getenv env ''FULL_CONFIG_TEST''; skip = Getenv env ''SKIP_TEARDOWN_REMOVAL'';
         chan = Getenv env ''SERVICE_CHANNEL''; path = Getenv env ''LOCAL_SERVICE_SNAP''
     in case (if full \<noteq> [] then ParseBool full else Inr False) of
          Inl e \<Rightarrow> Inl e
        | Inr b1 \<Rightarrow>
            (case (if skip \<noteq> [] then ParseBool skip else Inr False) of
               Inl e \<Rightarrow> Inl e
             | Inr b2 \<Rightarrow>
                 Inr \<lparr>ServiceChannel = (if chan \<noteq> [] then chan else ''latest/edge''),
                      LocalServiceSnapPath = path,
                      FullConfigTest = b1, SkipTeardownRemoval = b2\<rparr>))"
  by (cases "ParseBool (Getenv env ''FULL_CONFIG_TEST'')";
      cases "ParseBool (Getenv env ''SKIP_TEARDOWN_REMOVAL'')")
     (simp_all add: init_def defaults_def Let_def)

lemma loadEnvVars_cases:
  "loadEnvVars env =
    (let td = Getenv env ''TEARDOWN'';
         chan = Getenv env ''SNAP_CHANNEL''; path = Getenv env ''SNAP_PATH''
     in case (if td \<noteq> [] then ParseBool td else Inr True) of
          Inl e \<Rightarrow> Inl e
        | Inr b \<Rightarrow>
            Inr \<lparr>snapChannel = (if chan \<noteq> [] then chan else ''latest/edge''),
                 snapPath = path, teardown = b\<rparr>)"
  by (cases "ParseBool (Getenv env ''TEARDOWN'')")
     (simp_all add: loadEnvVars_def env_defaults_def Let_def)

lemma init_panics_iff:
  "(\<exists>e. init env = Inl e) \<longleftrightarrow>
       (Getenv env ''FULL_CONFIG_TEST'' \<noteq> []
          \<and> (\<exists>e. ParseBool (Getenv env ''FULL_CONFIG_TEST'') = Inl e))
     \<or> (Getenv env ''SKIP_TEARDOWN_REMOVAL'' \<noteq> []
          \<and> (\<exists>e. ParseBool (Getenv env ''SKIP_TEARDOWN_REMOVAL'') = Inl e))"
proof -
  define full where "full = Getenv env ''FULL_CONFIG_TEST''"
  define skip where "skip = Getenv env ''SKIP_TEARDOWN_REMOVAL''"
  define pf where "pf = ParseBool full"
  define ps where "ps = ParseBool skip"
  have "init env =
      (case (if full \<noteq> [] then pf else Inr False) of
          Inl e \<Rightarrow> Inl e
        | Inr b1 \<Rightarrow>
            (case (if skip \<noteq> [] then ps else Inr False) of
               Inl e \<Rightarrow> Inl e
             | Inr b2 \<Rightarrow>
                 Inr \<lparr>ServiceChannel = (if Getenv env ''SERVICE_CHANNEL'' \<noteq> []
                                          then Getenv env ''SERVICE_CHANNEL'' else ''latest/edge''),
                      LocalServiceSnapPath = Getenv env ''LOCAL_SERVICE_SNAP'',
                      FullConfigTest = b1, SkipTeardownRemoval = b2\<rparr>))"
    unfolding init_cases Let_def full_def skip_def pf_def ps_def ..
  then have "(\<exists>e. init env = Inl e) \<longleftrightarrow>
      (full \<noteq> [] \<and> (\<exists>e. pf = Inl e)) \<or> (skip \<noteq> [] \<and> (\<exists>e. ps = Inl e))"
    by (cases pf; cases ps; cases "full = []"; cases "skip = []") simp_all
  then show ?thesis
    unfolding full_def skip_def pf_def ps_def .
qed

lemma init_settings:
  assumes "init env = Inr c"
  shows "ServiceChannel c = (if Getenv env ''SERVICE_CHANNEL'' \<noteq> []
                             then Getenv env ''SERVICE_CHANNEL'' else ''latest/edge'')
       \<and> LocalServiceSnapPath c = (if Getenv env ''LOCAL_SERVICE_SNAP'' \<noteq> []
                                   then Getenv env ''LOCAL_SERVICE_SNAP'' else [])
       \<and> Inr (FullConfigTest c) = (if Getenv env ''FULL_CONFIG_TEST'' \<noteq> []
                                   then ParseBool (Getenv env ''FULL_CONFIG_TEST'')
                                   else Inr False)
       \<and> Inr (SkipTeardownRemoval c) = (if Getenv env ''SKIP_TEARDOWN_REMOVAL'' \<noteq> []
                                        then ParseBool (Getenv env ''SKIP_TEARDOWN_REMOVAL'')
                                        else Inr False)"
proof -
  define full where "full = Getenv env ''FULL_CONFIG_TEST''"
  define skip where "skip = Getenv env ''SKIP_TEARDOWN_REMOVAL''"
  define chan where "chan = Getenv env ''SERVICE_CHANNEL''"
  define path where "path = Getenv env ''LOCAL_SERVICE_SNAP''"
  define dflt where "dflt = ''latest/edge''"
  define pf :: "num_error + bool" where "pf = ParseBool full"
  define ps :: "num_error + bool" where "ps = ParseBool skip"
  have "init env =
      (case (if full \<noteq> [] then pf else Inr False) of
          Inl e \<Rightarrow> Inl e
        | Inr b1 \<Rightarrow>
            (case (if skip \<noteq> [] then ps else Inr False) of
               Inl e \<Rightarrow> Inl e
             | Inr b2 \<Rightarrow>
                 Inr \<lparr>ServiceChannel = (if chan \<noteq> [] then chan else dflt),
                      LocalServiceSnapPath = path,
                      FullConfigTest = b1, SkipTeardownRemoval = b2\<rparr>))"
    unfolding init_cases Let_def full_def skip_def pf_def ps_def chan_def path_def dflt_def ..
  with assms have "ServiceChannel c = (if chan \<noteq> [] then chan else dflt)
       \<and> LocalServiceSnapPath c = (if path \<noteq> [] then path else [])
       \<and> Inr (FullConfigTest c) = (if full \<noteq> [] then pf else Inr False)
       \<and> Inr (SkipTeardownRemoval c) = (if skip \<noteq> [] then ps else Inr False)"
    by (cases pf; cases ps; cases "full = []"; cases "skip = []") auto
  then show ?thesis
    unfolding full_def skip_def pf_def ps_def chan_def path_def dflt_def .
qed

lemma loadEnvVars_panics_iff:
  "(\<exists>e. loadEnvVars env = Inl e) \<longleftrightarrow>
       Getenv env ''TEARDOWN'' \<noteq> [] \<and> (\<exists>e. ParseBool (Getenv env ''TEARDOWN'') = Inl e)"
proof -
  define td where "td = Getenv env ''TEARDOWN''"
  define pt :: "num_error + bool" where "pt = ParseBool td"
  have "loadEnvVars env =
      (case (if td \<noteq> [] then pt else Inr True) of
          Inl e \<Rightarrow> Inl e
        | Inr b \<Rightarrow>
            Inr \<lparr>snapChannel = (if Getenv env ''SNAP_CHANNEL'' \<noteq> []
                                  then Getenv env ''SNAP_CHANNEL'' else ''latest/edge''),
                 snapPath = Getenv env ''SNAP_PATH'', teardown = b\<rparr>)"
    unfolding loadEnvVars_cases Let_def td_def pt_def ..
  then have "(\<exists>e. loadEnvVars env = Inl e) \<longleftrightarrow> td \<noteq> [] \<and> (\<exists>e. pt = Inl e)"
    by (cases pt; cases "td = []") simp_all
  then show ?thesis
    unfolding td_def pt_def .
qed

lemma loadEnvVars_settings:
  assumes "loadEnvVars env = Inr c"
  shows "snapChannel c = (if Getenv env ''SNAP_CHANNEL'' \<noteq> []
                          then Getenv env ''SNAP_CHANNEL'' else ''latest/edge'')
       \<and> snapPath c = (if Getenv env ''SNAP_PATH'' \<noteq> [] then Getenv env ''SNAP_PATH'' else [])
       \<and> Inr (teardown c) = (if Getenv env ''TEARDOWN'' \<noteq> []
                             then ParseBool (Getenv env ''TEARDOWN'') else Inr True)"
proof -
  define td where "td = Getenv env ''TEARDOWN''"
  define chan where "chan = Getenv env ''SNAP_CHANNEL''"
  define path where "path = Getenv env ''SNAP_PATH''"
  define dflt where "dflt = ''latest/edge''"
  define pt :: "num_error + bool" where "pt = ParseBool td"
  have "loadEnvVars env =
      (case (if td \<noteq> [] then pt else Inr True) of
          Inl e \<Rightarrow> Inl e
        | Inr b \<Rightarrow>
            Inr \<lparr>snapChannel = (if chan \<noteq> [] then chan else dflt),
                 snapPath = path, teardown = b\<rparr>)"
    unfolding loadEnvVars_cases Let_def td_def pt_def chan_def path_def dflt_def ..
  with assms have "snapChannel c = (if chan \<noteq> [] then chan else dflt)
       \<and> snapPath c = (if path \<noteq> [] then path else [])
       \<and> Inr (teardown c) = (if td \<noteq> [] then pt else Inr True)"
    by (cases pt; cases "td = []") auto
  then show ?thesis
    unfolding td_def pt_def chan_def path_def dflt_def .
qed

text \<open>
  C8. For \<open>init\<close> of package \<open>utils\<close> and for \<open>loadEnvVars\<close> of package \<open>env\<close>:
  the start-up panics exactly when a boolean variable has a non-empty value that
  \<open>strconv.ParseBool\<close> rejects, whatever the string variables hold; and when it does
  not panic, every string setting is the value of its variable if that is non-empty
  and its default otherwise, and every boolean setting is what \<open>strconv.ParseBool\<close>
  makes of the value of its variable if that is non-empty and its default otherwise.
\<close>

theorem environment_overrides:
  "((\<exists>e. init env = Inl e) \<longleftrightarrow>
       (Getenv env ''FULL_CONFIG_TEST'' \<noteq> []
          \<and> (\<exists>e. ParseBool (Getenv env ''FULL_CONFIG_TEST'') = Inl e))
     \<or> (Getenv env ''SKIP_TEARDOWN_REMOVAL'' \<noteq> []
          \<and> (\<exists>e. ParseBool (Getenv env ''SKIP_TEARDOWN_REMOVAL'') = Inl e)))
   \<and> (\<forall>c. init env = Inr c \<longrightarrow>
         ServiceChannel c = (if Getenv env ''SERVICE_CHANNEL'' \<noteq> []
                             then Getenv env ''SERVICE_CHANNEL'' else ''latest/edge'')
       \<and> LocalServiceSnapPath c = (if Getenv env ''LOCAL_SERVICE_SNAP'' \<noteq> []
                                   then Getenv env ''LOCAL_SERVICE_SNAP'' else [])
       \<and> Inr (FullConfigTest c) = (if Getenv env ''FULL_CONFIG_TEST'' \<noteq> []
                                   then ParseBool (Getenv env ''FULL_CONFIG_TEST'')
                                   else Inr False)
       \<and> Inr (SkipTeardownRemoval c) = (if Getenv env ''SKIP_TEARDOWN_REMOVAL'' \<noteq> []
                                        then ParseBool (Getenv env ''SKIP_TEARDOWN_REMOVAL'')
                                        else Inr False))
   \<and> ((\<exists>e. loadEnvVars env = Inl e) \<longleftrightarrow>
       Getenv env ''TEARDOWN'' \<noteq> [] \<and> (\<exists>e. ParseBool (Getenv env ''TEARDOWN'') = Inl e))
   \<and> (\<forall>c. loadEnvVars env = Inr c \<longrightarrow>
         snapChannel c = (if Getenv env ''SNAP_CHANNEL'' \<noteq> []
                          then Getenv env ''SNAP_CHANNEL'' else ''latest/edge'')
       \<and> snapPath c = (if Getenv env ''SNAP_PATH'' \<noteq> [] then Getenv env ''SNAP_PATH'' else [])
       \<and> Inr (teardown c) = (if Getenv env ''TEARDOWN'' \<noteq> []
                             then ParseBool (Getenv env ''TEARDOWN'') else Inr True))"
proof -
  have a: "\<forall>c. init env = Inr c \<longrightarrow>
         ServiceChannel c = (if Getenv env ''SERVICE_CHANNEL'' \<noteq> []
                             then Getenv env ''SERVICE_CHANNEL'' else ''latest/edge'')
       \<and> LocalServiceSnapPath c = (if Getenv env ''LOCAL_SERVICE_SNAP'' \<noteq> []
                                   then Getenv env ''LOCAL_SERVICE_SNAP'' else [])
       \<and> Inr (FullConfigTest c) = (if Getenv env ''FULL_CONFIG_TEST'' \<noteq> []
                                   then ParseBool (Getenv env ''FULL_CONFIG_TEST'')
                                   else Inr False)
       \<and> Inr (SkipTeardownRemoval c) = (if Getenv env ''SKIP_TEARDOWN_REMOVAL'' \<noteq> []
                                        then ParseBool (Getenv env ''SKIP_TEARDOWN_REMOVAL'')
                                        else Inr False)"
    by (intro allI impI) (rule init_settings)
  have b: "\<forall>c. loadEnvVars env = Inr c \<longrightarrow>
         snapChannel c = (if Getenv env ''SNAP_CHANNEL'' \<noteq> []
                          then Getenv env ''SNAP_CHANNEL'' else ''latest/edge'')
       \<and> snapPath c = (if Getenv env ''SNAP_PATH'' \<noteq> [] then Getenv env ''SNAP_PATH'' else [])
       \<and> Inr (teardown c) = (if Getenv env ''TEARDOWN'' \<noteq> []
                             then ParseBool (Getenv env ''TEARDOWN'') else Inr True)"
    by (intro allI impI) (rule loadEnvVars_settings)
  from init_panics_iff [of env] a loadEnvVars_panics_iff [of env] b show ?thesis
    by (intro conjI)
qed

theorem environment_overrides_witness:
  "(\<exists>c. init environ_example = Inr c
        \<and> ServiceChannel c = ''latest/beta'' \<and> LocalServiceSnapPath c = []
        \<and> FullConfigTest c = True \<and> SkipTeardownRemoval c = False)
   \<and> (\<exists>c. loadEnvVars environ_example = Inr c
        \<and> snapChannel c = ''latest/edge'' \<and> snapPath c = ''./matter.snap''
        \<and> teardown c = False)
   \<and> (\<exists>e. init environ_malformed = Inl e)
   \<and> (\<exists>e. loadEnvVars environ_malformed = Inl e)"
proof -
  have g: "Getenv environ_example ''SERVICE_CHANNEL'' = ''latest/beta''"
      "Getenv environ_example ''LOCAL_SERVICE_SNAP'' = []"
      "Getenv environ_example ''FULL_CONFIG_TEST'' = ''true''"
      "Getenv environ_example ''SKIP_TEARDOWN_REMOVAL'' = []"
      "Getenv environ_example ''SNAP_CHANNEL'' = []"
      "Getenv environ_example ''SNAP_PATH'' = ''./matter.snap''"
      "Getenv environ_example ''TEARDOWN'' = ''0''"
    by (simp_all add: Getenv_def environ_example_def)
  have m: "Getenv environ_malformed ''FULL_CONFIG_TEST'' = []"
      "Getenv environ_malformed ''SKIP_TEARDOWN_REMOVAL'' = ''yes''"
      "Getenv environ_malformed ''TEARDOWN'' = ''no''"
    by (simp_all add: Getenv_def environ_malformed_def)
  have pb: "ParseBool ''true'' = Inr True" "ParseBool ''0'' = Inr False"
      "ParseBool ''yes'' = Inl (NumError ''ParseBool'' ''yes'' ''invalid syntax'')"
      "ParseBool ''no'' = Inl (NumError ''ParseBool'' ''no'' ''invalid syntax'')"
    by (simp_all add: ParseBool_def)
  note ex = environment_overrides [of environ_example]
  note mal = environment_overrides [of environ_malformed]
  have "\<not> (\<exists>e. init environ_example = Inl e)"
    using ex by (simp add: g pb)
  then obtain c where c: "init environ_example = Inr c"
    by (cases "init environ_example") auto
  have "\<not> (\<exists>e. loadEnvVars environ_example = Inl e)"
    using ex by (simp add: g pb)
  then obtain d where d: "loadEnvVars environ_example = Inr d"
    by (cases "loadEnvVars environ_example") auto
  have w1: "\<exists>c. init environ_example = Inr c
        \<and> ServiceChannel c = ''latest/beta'' \<and> LocalServiceSnapPath c = []
        \<and> FullConfigTest c = True \<and> SkipTeardownRemoval c = False"
    using ex c by (simp add: g pb)
  have w2: "\<exists>c. loadEnvVars environ_example = Inr c
        \<and> snapChannel c = ''latest/edge'' \<and> snapPath c = ''./matter.snap''
        \<and> teardown c = False"
    using ex d by (simp add: g pb)
  have w3: "\<exists>e. init environ_malformed = Inl e"
    using mal by (simp add: m pb)
  have w4: "\<exists>e. loadEnvVars environ_malformed = Inl e"
    using mal by (simp add: m pb)
  from w1 w2 w3 w4 show ?thesis
    by (intro conjI)
qed

end
